theory Spec2Isabelle
  imports Main
begin

section \<open>Python values, errors and string helpers\<close>

text \<open>
  The exceptions the sources raise, as values. \<open>IOError\<close> carries which of the
  messages of \<open>fqiter\<close> / \<open>faiter\<close> (or a failed \<open>open\<close>) it stands for.
\<close>

datatype io_reason = No_such_file | Bad_FASTQ_format | Unequal_lengths | Bad_FASTA_format

datatype error =
    IOError io_reason
  | KeyError
  | AttributeError
  | TypeError
  | IntegrityError
  | OperationalError
  | ResourceError

text \<open>Values found in a record of an opened database: text, or the integer row index.\<close>

datatype pyval = Str string | Num int

text \<open>\<open>str.isspace\<close> on one byte: space, tab, newline, vertical tab, form feed, return.\<close>

definition isspace :: "char \<Rightarrow> bool" where
  "isspace c = (c = CHR 0x20 \<or> c = CHR 0x09 \<or> c = CHR 0x0A \<or> c = CHR 0x0B
                \<or> c = CHR 0x0C \<or> c = CHR 0x0D)"

text \<open>\<open>s.strip()\<close>: whitespace removed at both ends.\<close>

definition strip :: "string \<Rightarrow> string" where
  "strip s = rev (dropWhile isspace (rev (dropWhile isspace s)))"

text \<open>\<open>s.startswith(c)\<close> for a one-character prefix.\<close>

definition startswith :: "string \<Rightarrow> char \<Rightarrow> bool" where
  "startswith s c = (case s of [] \<Rightarrow> False | x # _ \<Rightarrow> x = c)"

text \<open>
  \<open>a, b = s.split(' ', 1)\<close>: the text before and after the first space. With no space
  in \<open>s\<close> the unpacking raises ValueError, which is \<open>None\<close> here.
\<close>

definition split1 :: "string \<Rightarrow> (string \<times> string) option" where
  "split1 s =
     (if CHR 0x20 \<in> set s
      then Some (takeWhile (\<lambda>c. c \<noteq> CHR 0x20) s, tl (dropWhile (\<lambda>c. c \<noteq> CHR 0x20) s))
      else None)"

text \<open>\<open>sep.join(xs)\<close>.\<close>

fun str_join :: "string \<Rightarrow> string list \<Rightarrow> string" where
  "str_join sep [] = []"
| "str_join sep [x] = x"
| "str_join sep (x # y # ys) = x @ sep @ str_join sep (y # ys)"

text \<open>\<open>str(n)\<close> of an integer, in decimal.\<close>

definition digit_char :: "nat \<Rightarrow> char" where
  "digit_char d = ''0123456789'' ! d"

function str_nat :: "nat \<Rightarrow> string" where
  "str_nat n = (if n < 10 then [digit_char n] else str_nat (n div 10) @ [digit_char (n mod 10)])"
  by pat_completeness auto
termination
  by (relation "measure id") auto

declare str_nat.simps [simp del]

definition str_int :: "int \<Rightarrow> string" where
  "str_int i = (if i < 0 then CHR ''-'' # str_nat (nat (- i)) else str_nat (nat i))"

fun py_str :: "pyval \<Rightarrow> string" where
  "py_str (Str s) = s"
| "py_str (Num i) = str_int i"

section \<open>File handles, dictionaries and the object store\<close>

text \<open>
  A handle opened for reading is the list of lines \<open>readline\<close> has still to return (each
  with or without its terminator: every caller strips the line at once). At end of file
  \<open>readline\<close> returns the empty string, again and again.
\<close>

type_synonym handle = "string list"

fun readline :: "handle \<Rightarrow> string \<times> handle" where
  "readline [] = ([], [])"
| "readline (l # ls) = (l, ls)"

text \<open>
  A parser's record is a Python dict from field name to text. Dicts are objects: the store
  maps an address to the dict's present contents, \<open>data = {}\<close> allocates a new address and
  \<open>data[k] = v\<close> updates the contents at the address in place.
\<close>

type_synonym pydict = "string \<rightharpoonup> string"
type_synonym addr = nat
type_synonym heap = "pydict list"

definition new_dict :: "heap \<Rightarrow> addr \<times> heap" where
  "new_dict H = (length H, H @ [Map.empty])"

definition dict_setitem :: "heap \<Rightarrow> addr \<Rightarrow> string \<Rightarrow> string \<Rightarrow> heap" where
  "dict_setitem H a k v = H[a := (H ! a)(k \<mapsto> v)]"

text \<open>
  What running a generator to its end gives: the values it yielded, each the address of
  the yielded dict together with the dict's contents at the moment of the yield (what a
  consumer sees that reads the record before asking for the next one), how the run ended,
  and the store at the end.
\<close>

datatype ending = StopIteration | Raised error | Diverges

type_synonym run = "(addr \<times> pydict) list \<times> ending \<times> heap"

lemma strip_Nil [simp]: "strip [] = []"
  by (simp add: strip_def)

lemma readline_measure:
  "(l, h') = readline h \<Longrightarrow> length h' + (if strip l = [] then 0 else 1) \<le> length h"
  by (cases h) auto

section \<open>The FASTA parser (\<open>faiter\<close>)\<close>

text \<open>
  The inner loop \<open>while line != '' and not line.startswith('>')\<close>: returns the collected
  lines, the line that ended the loop and the handle.
\<close>

function fa_sequence :: "string \<Rightarrow> handle \<Rightarrow> string list \<Rightarrow> string list \<times> string \<times> handle" where
  "fa_sequence line h sequenceList =
     (if line \<noteq> [] \<and> \<not> startswith line CHR ''>''
      then (case readline h of (l, h') \<Rightarrow> fa_sequence (strip l) h' (sequenceList @ [line]))
      else (sequenceList, line, h))"
  by pat_completeness auto
termination
  by (relation "measure (\<lambda>(line, h, s). length h + (if line = [] then 0 else 1))")
     (auto dest!: readline_measure split: if_splits)

declare fa_sequence.simps [simp del]

lemma fa_sequence_measure:
  "fa_sequence line h s = (sl, line', h') \<Longrightarrow>
   length h' + (if line' = [] then 0 else 1) \<le> length h + (if line = [] then 0 else 1)"
proof (induction line h s rule: fa_sequence.induct)
  case (1 line h sequenceList)
  show ?case
  proof (cases "line \<noteq> [] \<and> \<not> startswith line CHR ''>''")
    case True
    obtain l hh where rl: "readline h = (l, hh)" by (cases "readline h")
    from True rl "1.prems" have "fa_sequence (strip l) hh (sequenceList @ [line]) = (sl, line', h')"
      by (simp add: fa_sequence.simps [of line h])
    from "1.IH" [OF True rl [symmetric] this]
    have "length h' + (if line' = [] then 0 else 1) \<le> length hh + (if strip l = [] then 0 else 1)" .
    moreover have "length hh + (if strip l = [] then 0 else 1) \<le> length h + 1"
      using readline_measure [of l hh h] rl by simp
    ultimately show ?thesis using True by simp
  next
    case False
    with "1.prems" show ?thesis by (auto simp: fa_sequence.simps [of line h])
  qed
qed

text \<open>
  One pass through the body of \<open>while line != ''\<close> in \<open>faiter\<close>, for a line that begins
  with \<open>>\<close>: the dict at address \<open>data\<close> is updated in place; the result is the line and
  handle the next pass starts from, and the store at the \<open>yield\<close>.
\<close>

definition fa_body :: "addr \<Rightarrow> string \<Rightarrow> handle \<Rightarrow> heap \<Rightarrow> string \<times> handle \<times> heap" where
  "fa_body data line h H =
     (case (case split1 (tl line) of Some (n, d) \<Rightarrow> (n, d) | None \<Rightarrow> (tl line, [])) of
        (name, description) \<Rightarrow>
     let H1 = dict_setitem (dict_setitem H data ''name'' name) data ''description'' description;
         H2 = dict_setitem H1 data ''name'' (strip name);
         H3 = dict_setitem H2 data ''description'' (strip description)
     in (case readline h of (l, h1) \<Rightarrow>
         (case fa_sequence (strip l) h1 [] of (sequenceList, line', h2) \<Rightarrow>
            (line', h2, dict_setitem H3 data ''sequence'' (concat sequenceList)))))"

lemma fa_body_decreases:
  assumes "(line', h2, H4) = fa_body data line h H"
  shows "length h2 + (if line' = [] then 0 else 1) < length h + 1"
proof -
  obtain l h1 where rl: "(l, h1) = readline h" by (cases "readline h") auto
  obtain sl x y where fs: "(sl, x, y) = fa_sequence (strip l) h1 []"
    by (cases "fa_sequence (strip l) h1 []") auto
  from assms rl [symmetric] fs [symmetric] have "line' = x" "h2 = y"
    by (auto simp: fa_body_def Let_def split: prod.splits option.splits)
  with fa_sequence_measure [OF fs [symmetric]] readline_measure [OF rl]
  show ?thesis by (auto split: if_splits)
qed

lemma fa_body_decreases_case:
  "(case fa_body data line h H of (line', h2, H4) \<Rightarrow> length h2 + (if line' = [] then 0 else 1))
   < Suc (length h)"
proof (cases "fa_body data line h H")
  case (fields line' h2 H4)
  from fa_body_decreases [OF this [symmetric]] fields show ?thesis by simp
qed

text \<open>\<open>faiter\<close> from \<open>while line != ''\<close> on; \<open>data\<close> is the address of the one dict.\<close>

function fa_loop :: "addr \<Rightarrow> string \<Rightarrow> handle \<Rightarrow> heap \<Rightarrow> run" where
  "fa_loop data line h H =
     (if line \<noteq> [] then
        if \<not> startswith line CHR ''>'' then ([], Raised (IOError Bad_FASTA_format), H)
        else
          (case fa_body data line h H of (line', h2, H4) \<Rightarrow>
             (case fa_loop data line' h2 H4 of
                (ys, e, H') \<Rightarrow> ((data, H4 ! data) # ys, e, H')))
      else ([], StopIteration, H))"
  by pat_completeness auto
termination
  by (relation "measure (\<lambda>(data, line, h, H). length h + (if line = [] then 0 else 1))")
     (simp_all add: fa_body_decreases_case)

declare fa_loop.simps [simp del]

definition faiter :: "handle \<Rightarrow> heap \<Rightarrow> run" where
  "faiter h H =
     (case new_dict H of (data, H0) \<Rightarrow>
      case readline h of (l, h0) \<Rightarrow> fa_loop data (strip l) h0 H0)"


section \<open>The FASTQ parser (\<open>fqiter\<close>)\<close>

text \<open>
  The loop \<open>while not line.startswith('+')\<close> over the sequence lines. It has no test for
  the end of the file, so it need not return: \<open>None\<close> is a loop that runs forever.
\<close>

partial_function (option) fq_sequence ::
  "string \<Rightarrow> handle \<Rightarrow> string list \<Rightarrow> (string list \<times> handle) option" where
  "fq_sequence line h sequence =
     (if \<not> startswith line CHR ''+''
      then (case readline h of (l, h') \<Rightarrow> fq_sequence (strip l) h' (sequence @ [line]))
      else Some (sequence, h))"


lemma fq_sequence_plus: "startswith line CHR ''+'' \<Longrightarrow> fq_sequence line h s = Some (s, h)"
  by (subst fq_sequence.simps) simp

lemma fq_sequence_step:
  "\<not> startswith line CHR ''+'' \<Longrightarrow>
   fq_sequence line h s = fq_sequence (strip (fst (readline h))) (snd (readline h)) (s @ [line])"
  by (subst fq_sequence.simps) (simp add: case_prod_beta)

lemma fq_sequence_Some_plus:
  "fq_sequence line h s = Some r \<Longrightarrow>
   startswith line CHR ''+'' \<or> (\<exists>l \<in> set h. startswith (strip l) CHR ''+'')"
proof (induction line h s r rule: fq_sequence.raw_induct [rotated 1, consumes 1])
  case (1 f line h sequence r)
  show ?case
  proof (cases "startswith line CHR ''+''")
    case True
    then show ?thesis by simp
  next
    case False
    show ?thesis
    proof (cases h)
      case Nil
      with False "1.hyps" have "f [] [] (sequence @ [line]) = Some r" by simp
      from "1.IH" [OF this] show ?thesis by (simp add: startswith_def)
    next
      case (Cons l h')
      with False "1.hyps" have "f (strip l) h' (sequence @ [line]) = Some r" by simp
      from "1.IH" [OF this] Cons show ?thesis by auto
    qed
  qed
qed

lemma fq_sequence_length':
  "fq_sequence line h s = Some r \<Longrightarrow>
   length (snd r) \<le> length h \<and> (\<not> startswith line CHR ''+'' \<longrightarrow> length (snd r) < length h)"
proof (induction line h s r rule: fq_sequence.raw_induct [rotated 1, consumes 1])
  case (1 f line h sequence r)
  show ?case
  proof (cases "startswith line CHR ''+''")
    case True
    with "1.hyps" show ?thesis by auto
  next
    case False
    show ?thesis
    proof (cases h)
      case Nil
      with False "1.hyps" have "f [] [] (sequence @ [line]) = Some r" by simp
      from "1.IH" [OF this] show ?thesis by (simp add: startswith_def)
    next
      case (Cons l h')
      with False "1.hyps" have "f (strip l) h' (sequence @ [line]) = Some r" by simp
      from "1.IH" [OF this] Cons False show ?thesis by auto
    qed
  qed
qed

lemma fq_sequence_length:
  "fq_sequence line h s = Some (sq, h2) \<Longrightarrow>
   length h2 \<le> length h \<and> (\<not> startswith line CHR ''+'' \<longrightarrow> length h2 < length h)"
  using fq_sequence_length' [of line h s "(sq, h2)"] by simp

text \<open>At the end of the file the loop never leaves: \<open>readline\<close> keeps returning \<open>''\<close>.\<close>

lemma fq_sequence_eof:
  "\<not> startswith line CHR ''+'' \<Longrightarrow> fq_sequence line [] s = None"
  using fq_sequence_Some_plus [of line "[]" s] by (cases "fq_sequence line [] s") auto

lemma fq_sequence_Cons:
  "\<not> startswith line CHR ''+'' \<Longrightarrow>
   fq_sequence line (l # h) s = fq_sequence (strip l) h (s @ [line])"
  by (simp add: fq_sequence_step)

text \<open>The loop \<open>while not line.startswith('@') and not line == ''\<close> over the accuracy lines.\<close>

function fq_accuracy :: "string \<Rightarrow> handle \<Rightarrow> string list \<Rightarrow> string list \<times> string \<times> handle" where
  "fq_accuracy line h accuracy =
     (if \<not> startswith line CHR ''@'' \<and> \<not> line = []
      then (case readline h of (l, h') \<Rightarrow> fq_accuracy (strip l) h' (accuracy @ [line]))
      else (accuracy, line, h))"
  by pat_completeness auto
termination
  by (relation "measure (\<lambda>(line, h, s). length h + (if line = [] then 0 else 1))")
     (auto dest!: readline_measure split: if_splits)

declare fq_accuracy.simps [simp del]

lemma fq_accuracy_measure:
  "fq_accuracy line h s = (ac, line', h') \<Longrightarrow>
   length h' + (if line' = [] then 0 else 1) \<le> length h + (if line = [] then 0 else 1)"
proof (induction line h s rule: fq_accuracy.induct)
  case (1 line h accuracy)
  show ?case
  proof (cases "\<not> startswith line CHR ''@'' \<and> \<not> line = []")
    case True
    obtain l hh where rl: "readline h = (l, hh)" by (cases "readline h")
    from True rl "1.prems" have "fq_accuracy (strip l) hh (accuracy @ [line]) = (ac, line', h')"
      by (simp add: fq_accuracy.simps [of line h])
    from "1.IH" [OF True rl [symmetric] this]
    have "length h' + (if line' = [] then 0 else 1) \<le> length hh + (if strip l = [] then 0 else 1)" .
    moreover have "length hh + (if strip l = [] then 0 else 1) \<le> length h + 1"
      using readline_measure [of l hh h] rl by simp
    ultimately show ?thesis using True by simp
  next
    case False
    with "1.prems" show ?thesis by (auto simp: fq_accuracy.simps [of line h])
  qed
qed

text \<open>
  One pass through the body of \<open>while line\<close> in \<open>fqiter\<close>, for a line that begins with
  \<open>@\<close>: either the pass reaches the \<open>yield\<close>, with the line and handle the next pass
  starts from, or it ends the run (the length check raises, or the sequence loop never
  returns). The store is the one at that point.
\<close>

datatype pass = Yields string handle heap | Ends ending heap

definition fq_body :: "addr \<Rightarrow> string \<Rightarrow> handle \<Rightarrow> heap \<Rightarrow> pass" where
  "fq_body data line h H =
     (case (case split1 (tl line) of Some (n, a) \<Rightarrow> (n, a) | None \<Rightarrow> (tl line, [])) of
        (name, annotations) \<Rightarrow>
     let H1 = dict_setitem (dict_setitem H data ''name'' name) data ''annotations'' annotations
     in (case readline h of (l, h1) \<Rightarrow>
         (case fq_sequence (strip l) h1 [] of
            None \<Rightarrow> Ends Diverges H1
          | Some (sequence, h2) \<Rightarrow>
              let H2 = dict_setitem H1 data ''sequence'' (concat sequence)
              in (case readline h2 of (l', h3) \<Rightarrow>
                  (case fq_accuracy (strip l') h3 [] of (accuracy, line', h4) \<Rightarrow>
                     let H3 = dict_setitem H2 data ''accuracy'' (concat accuracy)
                     in if length (concat sequence) \<noteq> length (concat accuracy)
                        then Ends (Raised (IOError Unequal_lengths)) H3
                        else Yields line' h4 H3)))))"

lemma fq_body_decreases:
  assumes "fq_body data line h H = Yields line' h4 H3"
  shows "length h4 + (if line' = [] then 0 else 1) < length h + 1"
proof -
  obtain l h1 where rl: "(l, h1) = readline h" by (cases "readline h") auto
  from assms rl [symmetric] obtain sq h2 where sq: "fq_sequence (strip l) h1 [] = Some (sq, h2)"
    by (cases "fq_sequence (strip l) h1 []")
       (auto simp: fq_body_def Let_def split: prod.splits option.splits)
  obtain l' h3 where rl': "(l', h3) = readline h2" by (cases "readline h2") auto
  obtain ac x y where ac: "(ac, x, y) = fq_accuracy (strip l') h3 []"
    by (cases "fq_accuracy (strip l') h3 []") auto
  from assms rl [symmetric] sq rl' [symmetric] ac [symmetric] have xy: "line' = x" "h4 = y"
    by (auto simp: fq_body_def Let_def split: prod.splits option.splits if_splits)
  have a: "length h2 < length h"
  proof (cases "startswith (strip l) CHR ''+''")
    case True
    then have "h \<noteq> []" using rl by (auto simp: startswith_def)
    then have "length h1 < length h" using rl by (cases h) auto
    with fq_sequence_length [OF sq] show ?thesis by simp
  next
    case False
    with fq_sequence_length [OF sq] have "length h2 < length h1" by simp
    moreover have "length h1 \<le> length h" using rl by (cases h) auto
    ultimately show ?thesis by simp
  qed
  have "length y + (if x = [] then 0 else 1) \<le> length h3 + (if strip l' = [] then 0 else 1)"
    using fq_accuracy_measure [OF ac [symmetric]] .
  also have "\<dots> \<le> length h2" using readline_measure [OF rl'] .
  finally show ?thesis using a xy by simp
qed

text \<open>\<open>fqiter\<close> from \<open>while line\<close> on; \<open>data\<close> is the address of the one dict.\<close>

function fq_loop :: "addr \<Rightarrow> string \<Rightarrow> handle \<Rightarrow> heap \<Rightarrow> run" where
  "fq_loop data line h H =
     (if line \<noteq> [] then
        if \<not> startswith line CHR ''@'' then ([], Raised (IOError Bad_FASTQ_format), H)
        else
          (case fq_body data line h H of
             Ends e H1 \<Rightarrow> ([], e, H1)
           | Yields line' h4 H3 \<Rightarrow>
               (case fq_loop data line' h4 H3 of
                  (ys, e, H') \<Rightarrow> ((data, H3 ! data) # ys, e, H')))
      else ([], StopIteration, H))"
  by pat_completeness auto
termination
  by (relation "measure (\<lambda>(data, line, h, H). length h + (if line = [] then 0 else 1))")
     (auto dest!: fq_body_decreases split: if_splits)

declare fq_loop.simps [simp del]

definition fqiter :: "handle \<Rightarrow> heap \<Rightarrow> run" where
  "fqiter h H =
     (case new_dict H of (data, H0) \<Rightarrow>
      case readline h of (l, h0) \<Rightarrow> fq_loop data (strip l) h0 H0)"


section \<open>The fixed-schema example parser (\<open>havaiter\<close>)\<close>








text \<open>
  \<open>list(iterator)\<close>: the addresses yielded, kept until the run is over. A raised error
  leaves no list; \<open>None\<close> is a call that never returns.
\<close>

definition materialize :: "run \<Rightarrow> (error + (addr list \<times> heap)) option" where
  "materialize r =
     (case r of (ys, e, H) \<Rightarrow>
        (case e of StopIteration \<Rightarrow> Some (Inr (map fst ys, H))
         | Raised err \<Rightarrow> Some (Inl err)
         | Diverges \<Rightarrow> None))"

section \<open>The storage engine and the file system\<close>

text \<open>
  Modelled from the spec: \<open>dbConstants\<close> is not among the sources. The primary key column
  is the attribute \<open>id\<close> the tests read from a record; the canonical extension is a fixed
  suffix, whose text no result below depends on.
\<close>

definition PRIMARY_KEY :: string where
  "PRIMARY_KEY = ''id''"

definition fileExtension :: string where
  "fileExtension = ''_screed''"

text \<open>
  The engine is used as a keyed table: a row is its RowID and the text of each column. The
  database file holds the admin table (ID, FIELDNAME) and the dictionary table with its
  unique index. \<open>None\<close> is a table that does not exist.
\<close>

type_synonym row = "int \<times> pydict"

record table =
  columns :: "string list"
  unique_on :: "string option"
  rows :: "row list"

record sqldb =
  admin :: "(int \<times> string) list option"
  dictionary :: "table option"

datatype fs_file = Text "string list" | Store sqldb

type_synonym fs = "string \<rightharpoonup> fs_file"

text \<open>\<open>SELECT MAX(id)\<close>: NULL on a table without rows.\<close>

definition max_rowid :: "row list \<Rightarrow> int option" where
  "max_rowid rs = (case map fst rs of [] \<Rightarrow> None | i # js \<Rightarrow> Some (fold max js i))"

text \<open>
  \<open>INSERT\<close> with no value for the INTEGER PRIMARY KEY: the engine gives the row the largest
  RowID so far plus one (1 on an empty table), and refuses a row whose indexed column repeats
  a value of the table.
\<close>

definition insert_row :: "table \<Rightarrow> pydict \<Rightarrow> error + table" where
  "insert_row t r =
     (if (case unique_on t of None \<Rightarrow> False
          | Some c \<Rightarrow> r c \<in> set (map (\<lambda>x. snd x c) (rows t)))
      then Inl IntegrityError
      else Inr (t\<lparr>rows := rows t @
                   [(case max_rowid (rows t) of None \<Rightarrow> 1 | Some m \<Rightarrow> m + 1, r)]\<rparr>))"

definition endswith :: "string \<Rightarrow> string \<Rightarrow> bool" where
  "endswith s e = (length e \<le> length s \<and> drop (length s - length e) s = e)"

section \<open>Building a database (\<open>create_db\<close>)\<close>

text \<open>
  The loop \<open>for record in rcrditer\<close>: \<open>record[key]\<close> for each field (KeyError when the
  record lacks it), then the \<open>INSERT\<close>. The rows go to the connection's open transaction.
\<close>

fun insert_records :: "string list \<Rightarrow> table \<Rightarrow> pydict list \<Rightarrow> error + table" where
  "insert_records fieldnames t [] = Inr t"
| "insert_records fieldnames t (record # rs) =
     (case those (map record fieldnames) of
        None \<Rightarrow> Inl KeyError
      | Some data \<Rightarrow>
          (case insert_row t (map_of (zip fieldnames data)) of
             Inl e \<Rightarrow> Inl e
           | Inr t' \<Rightarrow> insert_records fieldnames t' rs))"

text \<open>
  \<open>create_db\<close> returns the outcome and the file system it leaves. The second component
  is what is durable: the module commits before each \<open>CREATE\<close> statement, and rows
  inserted after the last one are durable only by \<open>con.commit()\<close>. The records of
  \<open>rcrditer\<close> are read one by one as they are yielded; \<open>None\<close> is a call that never
  returns. A \<open>CREATE TABLE\<close> without columns or with a repeated column name is refused
  by the engine.
\<close>

definition create_db :: "fs \<Rightarrow> string \<Rightarrow> string list \<Rightarrow> run \<Rightarrow> ((error + unit) \<times> fs) option" where
  "create_db fs filepath fieldnames rcrditer =
     (let path = (if \<not> endswith filepath fileExtension then filepath @ fileExtension else filepath);
          fs1 = (if fs path \<noteq> None then fs(path := None) else fs);
          fs2 = fs1(path \<mapsto> Store \<lparr>admin = None, dictionary = None\<rparr>);
          fs3 = fs2(path \<mapsto> Store \<lparr>admin = Some [], dictionary = None\<rparr>);
          admin_rows = zip (map int [1 ..< Suc (length fieldnames)]) fieldnames
      in if fieldnames = [] \<or> \<not> distinct (PRIMARY_KEY # fieldnames) then Some (Inl OperationalError, fs3)
         else
           let queryby = hd fieldnames;
               t0 = \<lparr>columns = fieldnames, unique_on = Some queryby, rows = []\<rparr>;
               fs4 = fs3(path \<mapsto> Store \<lparr>admin = Some admin_rows, dictionary = Some t0\<rparr>)
           in (case rcrditer of (ys, e, H) \<Rightarrow>
                 (case insert_records fieldnames t0 (map snd ys) of
                    Inl err \<Rightarrow> Some (Inl err, fs4)
                  | Inr t \<Rightarrow>
                      (case e of
                         Raised err \<Rightarrow> Some (Inl err, fs4)
                       | Diverges \<Rightarrow> None
                       | StopIteration \<Rightarrow>
                           Some (Inr (), fs4(path \<mapsto>
                                   Store \<lparr>admin = Some admin_rows, dictionary = Some t\<rparr>))))))"

definition FASTQFIELDTYPES :: "string list" where
  "FASTQFIELDTYPES = [''name'', ''annotations'', ''sequence'', ''accuracy'']"

definition FASTAFIELDTYPES :: "string list" where
  "FASTAFIELDTYPES = [''name'', ''description'', ''sequence'']"

text \<open>
  \<open>open(filename, 'rb')\<close> raises IOError when there is no such file. Only text sources are
  modelled: a path that holds a database is refused in the same way.
\<close>

definition open_rb :: "fs \<Rightarrow> string \<Rightarrow> error + handle" where
  "open_rb fs filename =
     (case fs filename of Some (Text ls) \<Rightarrow> Inr ls | _ \<Rightarrow> Inl (IOError No_such_file))"

definition read_fastq_sequences :: "fs \<Rightarrow> string \<Rightarrow> ((error + unit) \<times> fs) option" where
  "read_fastq_sequences fs filename =
     (case open_rb fs filename of
        Inl e \<Rightarrow> Some (Inl e, fs)
      | Inr theFile \<Rightarrow> create_db fs filename FASTQFIELDTYPES (fqiter theFile []))"

definition read_fasta_sequences :: "fs \<Rightarrow> string \<Rightarrow> ((error + unit) \<times> fs) option" where
  "read_fasta_sequences fs filename =
     (case open_rb fs filename of
        Inl e \<Rightarrow> Some (Inl e, fs)
      | Inr theFile \<Rightarrow> create_db fs filename FASTAFIELDTYPES (faiter theFile []))"

section \<open>Reading a database (\<open>screedDB\<close>)\<close>

text \<open>
  An opened database: the connection (here the dictionary table its queries read), the
  field names, the column of the lookup key, and \<open>_len\<close> as \<open>__init__\<close> stores it.
\<close>

record screedDB =
  s_db :: table
  s_fieldTuple :: "string list"
  s_queryBy :: string
  s_len :: "int option"

type_synonym screed_record = "string \<rightharpoonup> pyval"

text \<open>
  Modelled from the spec: \<open>screedUtility.getScreedDB\<close> is not among the sources. It opens
  the store at the path (with the canonical extension, as the builder wrote it), loads the
  ordered field names and takes the first as the lookup key; it fails when the path does
  not exist or the schema or table metadata is absent.
\<close>

definition getScreedDB :: "fs \<Rightarrow> string \<Rightarrow> error + (table \<times> string list \<times> string)" where
  "getScreedDB fs filepath =
     (case fs (if \<not> endswith filepath fileExtension then filepath @ fileExtension else filepath) of
        Some (Store d) \<Rightarrow>
          (case admin d of
             Some ((i, f) # a) \<Rightarrow>
               (case dictionary d of
                  Some t \<Rightarrow> Inr (t, f # map snd a, f)
                | None \<Rightarrow> Inl ResourceError)
           | _ \<Rightarrow> Inl ResourceError)
      | _ \<Rightarrow> Inl ResourceError)"

definition screedDB_init :: "fs \<Rightarrow> string \<Rightarrow> error + screedDB" where
  "screedDB_init fs filepath =
     (case getScreedDB fs filepath of
        Inl e \<Rightarrow> Inl e
      | Inr (t, fieldTuple, queryBy) \<Rightarrow>
          Inr \<lparr>s_db = t, s_fieldTuple = fieldTuple, s_queryBy = queryBy,
               s_len = max_rowid (rows t)\<rparr>)"

text \<open>The value of a column in a row, and \<open>SELECT ... WHERE col = ?\<close>.\<close>

definition column_value :: "row \<Rightarrow> string \<Rightarrow> pyval option" where
  "column_value r col = (if col = PRIMARY_KEY then Some (Num (fst r)) else map_option Str (snd r col))"

definition select_where :: "table \<Rightarrow> string \<Rightarrow> pyval \<Rightarrow> row list" where
  "select_where t col key = filter (\<lambda>r. column_value r col = Some key) (rows t)"

text \<open>
  Modelled from the spec: \<open>screedRecord._buildRecord\<close> is not among the sources. It returns
  the record of the row the query finds: every schema field with its text, and the RowID
  attached under the primary key's name, exposed 0-based.
\<close>

definition mk_record :: "string list \<Rightarrow> row \<Rightarrow> screed_record" where
  "mk_record fieldTuple r =
     (\<lambda>k. if k = PRIMARY_KEY then Some (Num (fst r - 1))
          else if k \<in> set fieldTuple then map_option Str (snd r k) else None)"

definition buildRecord :: "string list \<Rightarrow> table \<Rightarrow> pyval \<Rightarrow> string \<Rightarrow> error + screed_record" where
  "buildRecord fieldTuple t key queryBy =
     (case select_where t queryBy key of
        [] \<Rightarrow> Inl TypeError
      | r # _ \<Rightarrow> Inr (mk_record fieldTuple r))"

text \<open>\<open>__getitem__\<close> and \<open>loadRecordByIndex\<close>.\<close>

definition getitem :: "screedDB \<Rightarrow> string \<Rightarrow> error + screed_record" where
  "getitem s key =
     (case select_where (s_db s) (s_queryBy s) (Str key) of
        [] \<Rightarrow> Inl KeyError
      | _ \<Rightarrow> buildRecord (s_fieldTuple s) (s_db s) (Str key) (s_queryBy s))"

definition loadRecordByIndex :: "screedDB \<Rightarrow> int \<Rightarrow> error + screed_record" where
  "loadRecordByIndex s i =
     (let index = i + 1
      in case select_where (s_db s) PRIMARY_KEY (Num index) of
           [] \<Rightarrow> Inl KeyError
         | _ \<Rightarrow> buildRecord (s_fieldTuple s) (s_db s) (Num index) PRIMARY_KEY)"

text \<open>
  \<open>__len__\<close> returns \<open>_len\<close> as it is; \<open>len(db)\<close> raises TypeError when that is not an
  integer.
\<close>

definition dunder_len :: "screedDB \<Rightarrow> int option" where
  "dunder_len s = s_len s"

definition py_len :: "screedDB \<Rightarrow> error + int" where
  "py_len s = (case dunder_len s of None \<Rightarrow> Inl TypeError | Some n \<Rightarrow> Inr n)"


text \<open>Running a list of fallible steps in order, stopping at the first error.\<close>

fun collect :: "(error + 'a) list \<Rightarrow> error + 'a list" where
  "collect [] = Inr []"
| "collect (x # xs) =
     (case x of Inl e \<Rightarrow> Inl e
      | Inr v \<Rightarrow> (case collect xs of Inl e \<Rightarrow> Inl e | Inr vs \<Rightarrow> Inr (v # vs)))"

text \<open>
  The iterators, run to their end. \<open>itervalues\<close> counts \<open>xrange(1, self.__len__()+1)\<close>,
  where the sum is a TypeError when \<open>__len__\<close> returns None.
\<close>

definition itervalues :: "screedDB \<Rightarrow> error + screed_record list" where
  "itervalues s =
     (case dunder_len s of
        None \<Rightarrow> Inl TypeError
      | Some n \<Rightarrow>
          collect (map (\<lambda>index. buildRecord (s_fieldTuple s) (s_db s) (Num index) PRIMARY_KEY)
                       [1 .. n]))"

definition iterkeys :: "screedDB \<Rightarrow> pyval list" where
  "iterkeys s = List.map_filter (\<lambda>r. column_value r (s_queryBy s)) (rows (s_db s))"

definition iteritems :: "screedDB \<Rightarrow> error + (string \<times> screed_record) list" where
  "iteritems s =
     (case itervalues s of
        Inl e \<Rightarrow> Inl e
      | Inr vs \<Rightarrow>
          collect (map (\<lambda>v. case v PRIMARY_KEY of None \<Rightarrow> Inl KeyError
                                | Some i \<Rightarrow> Inr (py_str i, v)) vs))"

definition values_of :: "screedDB \<Rightarrow> error + screed_record list" where
  "values_of s = itervalues s"

definition items :: "screedDB \<Rightarrow> error + (string \<times> screed_record) list" where
  "items s = iteritems s"

definition keys :: "screedDB \<Rightarrow> pyval list" where
  "keys s = iterkeys s"

text \<open>
  The methods that are not implemented. A call passes the object and a list of positional
  arguments; before the body runs, Python compares their number with the parameters the
  \<open>def\<close> declares besides \<open>self\<close> and raises TypeError when it differs. The body is
  \<open>raise AttributeError\<close>; in either case the object stays as it was.
\<close>

definition db_setitem :: "screedDB \<Rightarrow> pyval list \<Rightarrow> (error + unit) \<times> screedDB" where
  "db_setitem s args = (if length args \<noteq> 1 then (Inl TypeError, s) else (Inl AttributeError, s))"

definition clear :: "screedDB \<Rightarrow> pyval list \<Rightarrow> (error + unit) \<times> screedDB" where
  "clear s args = (if length args \<noteq> 0 then (Inl TypeError, s) else (Inl AttributeError, s))"

definition update :: "screedDB \<Rightarrow> pyval list \<Rightarrow> (error + unit) \<times> screedDB" where
  "update s args = (if length args \<noteq> 1 then (Inl TypeError, s) else (Inl AttributeError, s))"

definition setdefault :: "screedDB \<Rightarrow> pyval list \<Rightarrow> (error + unit) \<times> screedDB" where
  "setdefault s args = (if length args \<noteq> 1 then (Inl TypeError, s) else (Inl AttributeError, s))"

definition pop :: "screedDB \<Rightarrow> pyval list \<Rightarrow> (error + unit) \<times> screedDB" where
  "pop s args = (if length args \<noteq> 0 then (Inl TypeError, s) else (Inl AttributeError, s))"

definition popitem :: "screedDB \<Rightarrow> pyval list \<Rightarrow> (error + unit) \<times> screedDB" where
  "popitem s args = (if length args \<noteq> 0 then (Inl TypeError, s) else (Inl AttributeError, s))"

text \<open>The statement \<open>db[key] = value\<close> is the call of \<open>__setitem__\<close> with the key and the value.\<close>

definition subscript_assign :: "screedDB \<Rightarrow> pyval \<Rightarrow> pyval \<Rightarrow> (error + unit) \<times> screedDB" where
  "subscript_assign s key val = db_setitem s [key, val]"

section \<open>Writing a database back as text\<close>

definition MAXLINELEN :: nat where
  "MAXLINELEN = 80"

definition null_accuracy :: char where
  "null_accuracy = CHR 0x22"

definition NL :: char where
  "NL = CHR 0x0A"

definition getComments :: "screed_record \<Rightarrow> pyval" where
  "getComments v =
     (case v ''description'' of
        Some d \<Rightarrow> d
      | None \<Rightarrow> (case v ''annotations'' of Some a \<Rightarrow> a | None \<Rightarrow> Str []))"

function linewrap_loop :: "string \<Rightarrow> nat \<Rightarrow> string list \<Rightarrow> string list" where
  "linewrap_loop longString bgn res =
     (if bgn < length longString
      then linewrap_loop longString (bgn + MAXLINELEN)
             (res @ [take MAXLINELEN (drop bgn longString)])
      else res)"
  by pat_completeness auto
termination
  by (relation "measure (\<lambda>(s, b, r). length s - b)") (auto simp: MAXLINELEN_def)

declare linewrap_loop.simps [simp del]

definition linewrap :: "string \<Rightarrow> string" where
  "linewrap longString = str_join [NL] (linewrap_loop longString 0 [])"

text \<open>\<open>len\<close> and slicing apply to text; on the integer row index they raise TypeError.\<close>

definition generateAccuracy :: "screed_record \<Rightarrow> error + string" where
  "generateAccuracy v =
     (case v ''accuracy'' of
        Some (Str a) \<Rightarrow> Inr (linewrap a)
      | Some (Num _) \<Rightarrow> Inl TypeError
      | None \<Rightarrow>
          (case v ''sequence'' of
             Some (Str sq) \<Rightarrow> Inr (linewrap (replicate (length sq) null_accuracy))
           | Some (Num _) \<Rightarrow> Inl TypeError
           | None \<Rightarrow> Inl KeyError))"

text \<open>The text of one \<open>outFile.write\<close> of \<open>toFastq\<close>.\<close>

definition fastq_entry :: "screed_record \<Rightarrow> error + string" where
  "fastq_entry v =
     (case v ''name'' of
        None \<Rightarrow> Inl KeyError
      | Some name \<Rightarrow>
          (case v ''sequence'' of
             None \<Rightarrow> Inl KeyError
           | Some (Num _) \<Rightarrow> Inl TypeError
           | Some (Str sq) \<Rightarrow>
               (case generateAccuracy v of
                  Inl e \<Rightarrow> Inl e
                | Inr acc \<Rightarrow>
                    Inr (''@'' @ py_str name @ '' '' @ py_str (getComments v) @ [NL]
                         @ linewrap sq @ [NL] @ ''+'' @ [NL] @ acc @ [NL]))))"

text \<open>
  \<open>toFastq\<close>: the text written to the output file when every record is written; an error
  of the database or of a record ends the call.
\<close>

definition toFastq :: "fs \<Rightarrow> string \<Rightarrow> error + string" where
  "toFastq fs dbFile =
     (case screedDB_init fs dbFile of
        Inl e \<Rightarrow> Inl e
      | Inr d \<Rightarrow>
          (case itervalues d of
             Inl e \<Rightarrow> Inl e
           | Inr vs \<Rightarrow>
               (case collect (map fastq_entry vs) of
                  Inl e \<Rightarrow> Inl e
                | Inr es \<Rightarrow> Inr (concat es))))"

section \<open>Line wrapping\<close>

lemma linewrap_loop_acc: "linewrap_loop s b res = res @ linewrap_loop s b []"
proof (induction "length s - b" arbitrary: b res rule: less_induct)
  case less
  show ?case
  proof (cases "b < length s")
    case True
    let ?c = "take MAXLINELEN (drop b s)"
    have d: "length s - (b + MAXLINELEN) < length s - b"
      using True by (simp add: MAXLINELEN_def)
    have "linewrap_loop s b res = linewrap_loop s (b + MAXLINELEN) (res @ [?c])"
      using True by (subst linewrap_loop.simps) simp
    also have "\<dots> = (res @ [?c]) @ linewrap_loop s (b + MAXLINELEN) []"
      by (rule less [OF d])
    also have "\<dots> = res @ linewrap_loop s (b + MAXLINELEN) [?c]"
      using less [OF d, of "[?c]"] by simp
    also have "linewrap_loop s (b + MAXLINELEN) [?c] = linewrap_loop s b []"
      using True by (subst (2) linewrap_loop.simps) simp
    finally show ?thesis .
  next
    case False
    then show ?thesis by (simp add: linewrap_loop.simps)
  qed
qed

lemma linewrap_loop_step:
  "b < length s \<Longrightarrow>
   linewrap_loop s b [] = take MAXLINELEN (drop b s) # linewrap_loop s (b + MAXLINELEN) []"
  using linewrap_loop_acc [of s "b + MAXLINELEN" "[take MAXLINELEN (drop b s)]"]
  by (subst linewrap_loop.simps) simp

lemma linewrap_loop_done: "\<not> b < length s \<Longrightarrow> linewrap_loop s b [] = []"
  by (subst linewrap_loop.simps) simp

lemma linewrap_loop_concat: "concat (linewrap_loop s b []) = drop b s"
proof (induction "length s - b" arbitrary: b rule: less_induct)
  case less
  show ?case
  proof (cases "b < length s")
    case True
    have d: "length s - (b + MAXLINELEN) < length s - b"
      using True by (simp add: MAXLINELEN_def)
    have "concat (linewrap_loop s b []) = take MAXLINELEN (drop b s) @ drop (b + MAXLINELEN) s"
      using less [OF d] True by (simp add: linewrap_loop_step)
    also have "drop (b + MAXLINELEN) s = drop MAXLINELEN (drop b s)"
      by (simp add: add.commute)
    finally show ?thesis by (simp only: append_take_drop_id)
  next
    case False
    then show ?thesis by (simp add: linewrap_loop_done)
  qed
qed

lemma linewrap_loop_lengths:
  "\<forall>l \<in> set (linewrap_loop s b []). 0 < length l \<and> length l \<le> MAXLINELEN"
proof (induction "length s - b" arbitrary: b rule: less_induct)
  case less
  show ?case
  proof (cases "b < length s")
    case True
    have d: "length s - (b + MAXLINELEN) < length s - b"
      using True by (simp add: MAXLINELEN_def)
    show ?thesis using less [OF d] True by (auto simp: linewrap_loop_step MAXLINELEN_def)
  next
    case False
    then show ?thesis by (simp add: linewrap_loop_done)
  qed
qed

lemma linewrap_loop_full:
  "\<forall>l \<in> set (butlast (linewrap_loop s b [])). length l = MAXLINELEN"
proof (induction "length s - b" arbitrary: b rule: less_induct)
  case less
  show ?case
  proof (cases "b < length s")
    case True
    have d: "length s - (b + MAXLINELEN) < length s - b"
      using True by (simp add: MAXLINELEN_def)
    have s1: "linewrap_loop s b [] = take MAXLINELEN (drop b s) # linewrap_loop s (b + MAXLINELEN) []"
      using True by (rule linewrap_loop_step)
    show ?thesis
    proof (cases "b + MAXLINELEN < length s")
      case True
      then have ne: "linewrap_loop s (b + MAXLINELEN) [] \<noteq> []"
        by (simp add: linewrap_loop_step [OF True])
      have "length (take MAXLINELEN (drop b s)) = MAXLINELEN"
        using True by simp
      with less [OF d] ne show ?thesis
        by (simp only: s1 butlast.simps if_False set_simps ball_simps)
    next
      case False
      then have "linewrap_loop s (b + MAXLINELEN) [] = []" by (rule linewrap_loop_done)
      then show ?thesis by (simp add: s1)
    qed
  next
    case False
    then show ?thesis by (simp add: linewrap_loop_done)
  qed
qed

section \<open>The FASTQ sequence loop at the end of the file\<close>

lemma fq_loop_no_plus:
  assumes "line \<noteq> []" "startswith line CHR ''@''"
    and "\<forall>l \<in> set h. \<not> startswith (strip l) CHR ''+''"
  shows "\<exists>H'. fq_loop data line h H = ([], Diverges, H')"
proof -
  obtain l h1 where rl: "readline h = (l, h1)" by (cases "readline h")
  have "set h1 \<subseteq> set h" using rl by (cases h) auto
  moreover have "\<not> startswith (strip l) CHR ''+''"
    using rl assms(3) by (cases h) (auto simp: startswith_def)
  ultimately have "fq_sequence (strip l) h1 [] = None"
    using fq_sequence_Some_plus [of "strip l" h1 "[]"] assms(3)
    by (cases "fq_sequence (strip l) h1 []") auto
  with rl have "\<exists>H'. fq_body data line h H = Ends Diverges H'"
    by (simp add: fq_body_def Let_def split: prod.splits)
  then show ?thesis using assms(1,2) by (subst fq_loop.simps) auto
qed

text \<open>
  C9 asks that \<open>fqiter\<close> terminates on every finite stream, also on one that ends inside
  a record's sequence block. On the two-line file below (a header and a sequence line, no
  line beginning with \<open>+\<close>) the run yields nothing and never ends: the generator does not
  return, neither does \<open>list\<close> of it, nor the build that reads from it.
\<close>

theorem fqiter_truncated_never_returns:
  "fqiter [''@r1'', ''ACGT''] [] = ([], Diverges, [[''name'' \<mapsto> ''r1'', ''annotations'' \<mapsto> []]])
   \<and> materialize (fqiter [''@r1'', ''ACGT''] []) = None
   \<and> read_fastq_sequences [''t.fq'' \<mapsto> Text [''@r1'', ''ACGT'']] ''t.fq'' = None"
proof -
  have r: "fqiter [''@r1'', ''ACGT''] []
           = ([], Diverges, [[''name'' \<mapsto> ''r1'', ''annotations'' \<mapsto> []]])"
    by (simp add: fqiter_def new_dict_def fq_loop.simps fq_body_def fq_sequence_Cons
        fq_sequence_eof startswith_def strip_def isspace_def split1_def dict_setitem_def)
  show ?thesis
    by (simp add: r materialize_def read_fastq_sequences_def open_rb_def create_db_def
        FASTQFIELDTYPES_def PRIMARY_KEY_def Let_def)
qed

section \<open>One dict for every record\<close>

lemma dict_setitem_length [simp]: "length (dict_setitem H a k v) = length H"
  by (simp add: dict_setitem_def)

lemma fa_body_heap_length: "fa_body data line h H = (line', h2, H4) \<Longrightarrow> length H4 = length H"
  by (auto simp: fa_body_def Let_def split: prod.splits option.splits)









section \<open>Tables built by inserts\<close>

text \<open>
  The shape of a table filled by inserts alone: the RowIDs are 1, 2, ... in the order of
  insertion, without gaps.
\<close>

definition wf_table :: "table \<Rightarrow> bool" where
  "wf_table t = (map fst (rows t) = map int [1 ..< Suc (length (rows t))])"

lemma upto_as_upt: "[1 .. int n] = map int [1 ..< Suc n]"
proof (induction n)
  case 0
  show ?case by simp
next
  case (Suc n)
  have "[1 .. int (Suc n)] = [1 .. int n] @ [int (Suc n)]"
    using upto_rec2 [of 1 "int (Suc n)"] by simp
  with Suc show ?case by simp
qed

lemma fold_max_upt: "fold max (map int [2 ..< Suc (Suc n)]) 1 = int (Suc n)"
proof (induction n)
  case 0
  show ?case by simp
next
  case (Suc n)
  have "[2 ..< Suc (Suc (Suc n))] = [2 ..< Suc (Suc n)] @ [Suc (Suc n)]" by simp
  then show ?case using Suc by (simp del: upt_Suc)
qed

lemma max_rowid_wf:
  assumes "wf_table t"
  shows "max_rowid (rows t) = (if rows t = [] then None else Some (int (length (rows t))))"
proof (cases "length (rows t)")
  case 0
  then show ?thesis by (simp add: max_rowid_def)
next
  case (Suc n)
  have "[1 ..< Suc (Suc n)] = 1 # [2 ..< Suc (Suc n)]"
    using upt_conv_Cons [of 1 "Suc (Suc n)"] by (simp add: numeral_2_eq_2 del: upt_Suc)
  with assms Suc have "map fst (rows t) = 1 # map int [2 ..< Suc (Suc n)]"
    by (simp add: wf_table_def del: upt_Suc)
  then have "max_rowid (rows t) = Some (int (Suc n))"
    by (simp add: max_rowid_def fold_max_upt del: upt_Suc)
  with Suc show ?thesis by auto
qed

lemma insert_row_wf:
  assumes "wf_table t" "insert_row t r = Inr t'"
  shows "wf_table t' \<and> rows t' = rows t @ [(int (length (rows t)) + 1, r)]
         \<and> columns t' = columns t \<and> unique_on t' = unique_on t"
proof -
  have m: "(case max_rowid (rows t) of None \<Rightarrow> 1 | Some m \<Rightarrow> m + 1) = int (length (rows t)) + 1"
    using max_rowid_wf [OF assms(1)] by auto
  from assms(2) have r: "t' = t\<lparr>rows := rows t @ [(int (length (rows t)) + 1, r)]\<rparr>"
    by (auto simp: insert_row_def m split: if_splits)
  with assms(1) show ?thesis by (simp add: wf_table_def)
qed

lemma insert_records_wf:
  "wf_table t \<Longrightarrow> insert_records fieldnames t recs = Inr t' \<Longrightarrow>
   wf_table t' \<and> length (rows t') = length (rows t) + length recs
   \<and> columns t' = columns t \<and> unique_on t' = unique_on t"
proof (induction recs arbitrary: t)
  case Nil
  then show ?case by simp
next
  case (Cons rcd recs)
  from Cons.prems(2) obtain data t1 where
    d: "those (map rcd fieldnames) = Some data"
    and i: "insert_row t (map_of (zip fieldnames data)) = Inr t1"
    and rest: "insert_records fieldnames t1 recs = Inr t'"
    by (auto split: option.splits sum.splits)
  from insert_row_wf [OF Cons.prems(1) i] Cons.IH [OF _ rest]
  show ?case by simp
qed

text \<open>A query by RowID finds the row at that position, and no row outside the range.\<close>

lemma select_rowid_wf:
  assumes "wf_table t"
  shows "select_where t PRIMARY_KEY (Num k) =
           (if 1 \<le> k \<and> k \<le> int (length (rows t)) then [rows t ! nat (k - 1)] else [])"
proof -
  have c: "\<And>r. (column_value r PRIMARY_KEY = Some (Num k)) = (fst r = k)"
    by (simp add: column_value_def)
  have g: "\<And>rs :: row list. \<And>m. map fst rs = map int [m ..< m + length rs] \<Longrightarrow>
        filter (\<lambda>r. fst r = k) rs =
          (if int m \<le> k \<and> k < int (m + length rs) then [rs ! (nat k - m)] else [])"
  proof -
    fix rs :: "row list" and m
    show "map fst rs = map int [m ..< m + length rs] \<Longrightarrow>
        filter (\<lambda>r. fst r = k) rs =
          (if int m \<le> k \<and> k < int (m + length rs) then [rs ! (nat k - m)] else [])"
    proof (induction rs arbitrary: m)
      case Nil
      then show ?case by simp
    next
      case (Cons r rs)
      have "[m ..< m + length (r # rs)] = m # [Suc m ..< Suc m + length rs]"
        using upt_conv_Cons [of m "m + length (r # rs)"] by (simp del: upt_Suc)
      with Cons.prems have hd: "fst r = int m" and tl: "map fst rs = map int [Suc m ..< Suc m + length rs]"
        by (simp_all del: upt_Suc)
      from Cons.IH [OF tl] have ih: "filter (\<lambda>r. fst r = k) rs =
          (if int (Suc m) \<le> k \<and> k < int (Suc m + length rs) then [rs ! (nat k - Suc m)] else [])" .
      show ?case
      proof (cases "k = int m")
        case True
        with hd ih show ?thesis by simp
      next
        case False
        have "int m \<le> k \<Longrightarrow> nat k - m = Suc (nat k - Suc m)" using False by linarith
        with False hd ih show ?thesis by auto
      qed
    qed
  qed
  from assms have "map fst (rows t) = map int [1 ..< 1 + length (rows t)]"
    by (simp add: wf_table_def)
  from g [OF this] have "filter (\<lambda>r. fst r = k) (rows t) =
      (if 1 \<le> k \<and> k < int (1 + length (rows t)) then [rows t ! (nat k - 1)] else [])"
    by simp
  moreover have "nat k - 1 = nat (k - 1)" by linarith
  ultimately show ?thesis by (auto simp: select_where_def c)
qed

section \<open>Lookups in an opened database\<close>

lemma collect_Inr: "collect (map (\<lambda>x. Inr (f x)) xs) = Inr (map f xs)"
  by (induction xs) auto

lemma buildRecord_rowid_wf:
  assumes "wf_table t" "1 \<le> k" "k \<le> int (length (rows t))"
  shows "buildRecord ft t (Num k) PRIMARY_KEY = Inr (mk_record ft (rows t ! nat (k - 1)))"
  using assms by (simp add: buildRecord_def select_rowid_wf)

lemma itervalues_wf:
  assumes "wf_table (s_db s)" "s_len s = max_rowid (rows (s_db s))" "rows (s_db s) \<noteq> []"
  shows "itervalues s = Inr (map (mk_record (s_fieldTuple s)) (rows (s_db s)))"
proof -
  let ?t = "s_db s" and ?n = "length (rows (s_db s))"
  have len: "dunder_len s = Some (int ?n)"
    using assms max_rowid_wf [OF assms(1)] by (simp add: dunder_len_def)
  have "map (\<lambda>index. buildRecord (s_fieldTuple s) ?t (Num index) PRIMARY_KEY) [1 .. int ?n]
        = map (\<lambda>i. Inr (mk_record (s_fieldTuple s) (rows ?t ! i))) [0 ..< ?n]"
  proof -
    have "[1 .. int ?n] = map (\<lambda>i. int (Suc i)) [0 ..< ?n]"
      by (simp add: upto_as_upt map_Suc_upt [symmetric] del: upt_Suc)
    moreover have "\<And>i. i < ?n \<Longrightarrow>
        buildRecord (s_fieldTuple s) ?t (Num (int (Suc i))) PRIMARY_KEY
        = Inr (mk_record (s_fieldTuple s) (rows ?t ! i))"
      using buildRecord_rowid_wf [OF assms(1)] by simp
    ultimately show ?thesis by simp
  qed
  also have "collect \<dots> = Inr (map (\<lambda>i. mk_record (s_fieldTuple s) (rows ?t ! i)) [0 ..< ?n])"
    by (rule collect_Inr)
  also have "map (\<lambda>i. mk_record (s_fieldTuple s) (rows ?t ! i)) [0 ..< ?n]
             = map (mk_record (s_fieldTuple s)) (map (\<lambda>i. rows ?t ! i) [0 ..< ?n])"
    by simp
  also have "map (\<lambda>i. rows ?t ! i) [0 ..< ?n] = rows ?t" by (rule map_nth)
  finally show ?thesis using len by (simp add: itervalues_def)
qed

lemma mk_record_id [simp]: "mk_record ft r PRIMARY_KEY = Some (Num (fst r - 1))"
  by (simp add: mk_record_def)

lemma iteritems_wf:
  assumes "wf_table (s_db s)" "s_len s = max_rowid (rows (s_db s))" "rows (s_db s) \<noteq> []"
  shows "iteritems s =
           Inr (map (\<lambda>r. (str_int (fst r - 1), mk_record (s_fieldTuple s) r)) (rows (s_db s)))"
proof -
  have "map (\<lambda>v. case v PRIMARY_KEY of None \<Rightarrow> Inl KeyError | Some i \<Rightarrow> Inr (py_str i, v))
          (map (mk_record (s_fieldTuple s)) (rows (s_db s)))
        = map (\<lambda>r. Inr (str_int (fst r - 1), mk_record (s_fieldTuple s) r)) (rows (s_db s))"
    by simp
  then have "collect (map (\<lambda>v. case v PRIMARY_KEY of None \<Rightarrow> Inl KeyError | Some i \<Rightarrow> Inr (py_str i, v))
          (map (mk_record (s_fieldTuple s)) (rows (s_db s))))
        = Inr (map (\<lambda>r. (str_int (fst r - 1), mk_record (s_fieldTuple s) r)) (rows (s_db s)))"
    by (simp only: collect_Inr)
  then show ?thesis
    by (simp only: iteritems_def itervalues_wf [OF assms] sum.case)
qed


lemma loadRecordByIndex_wf:
  assumes "wf_table (s_db s)"
  shows "loadRecordByIndex s i =
           (if 0 \<le> i \<and> i < int (length (rows (s_db s)))
            then Inr (mk_record (s_fieldTuple s) (rows (s_db s) ! nat i))
            else Inl KeyError)"
  using assms
  by (auto simp: loadRecordByIndex_def Let_def select_rowid_wf buildRecord_def)

lemma wf_table_nth:
  assumes "wf_table t" "i < length (rows t)"
  shows "fst (rows t ! i) = int i + 1"
proof -
  have "fst (rows t ! i) = map fst (rows t) ! i" using assms(2) by simp
  also have "\<dots> = map int [1 ..< Suc (length (rows t))] ! i"
    using assms(1) by (simp add: wf_table_def)
  also have "\<dots> = int i + 1" using assms(2) by (simp del: upt_Suc)
  finally show ?thesis .
qed

section \<open>Building and then opening\<close>

lemma create_db_success:
  assumes "create_db fs filepath fieldnames (ys, e, H) = Some (Inr u, fs')"
  obtains t where
    "e = StopIteration"
    "insert_records fieldnames \<lparr>columns = fieldnames, unique_on = Some (hd fieldnames), rows = []\<rparr>
       (map snd ys) = Inr t"
    "fieldnames \<noteq> []"
    "fs' (if \<not> endswith filepath fileExtension then filepath @ fileExtension else filepath)
       = Some (Store \<lparr>admin = Some (zip (map int [1 ..< Suc (length fieldnames)]) fieldnames),
                      dictionary = Some t\<rparr>)"
  using assms
  by (auto simp: create_db_def Let_def split: if_splits sum.splits ending.splits)

text \<open>
  A build that succeeds leaves a database that opens, whose table has the shape of
  \<open>wf_table\<close> and one row for each record read.
\<close>

lemma opened_after_build:
  assumes "create_db fs filepath fieldnames (ys, e, H) = Some (Inr u, fs')"
  obtains s where "screedDB_init fs' filepath = Inr s" "wf_table (s_db s)"
    "length (rows (s_db s)) = length ys" "s_len s = max_rowid (rows (s_db s))"
    "s_fieldTuple s = fieldnames" "s_queryBy s = hd fieldnames"
proof -
  from create_db_success [OF assms] obtain t where
    ins: "insert_records fieldnames \<lparr>columns = fieldnames, unique_on = Some (hd fieldnames), rows = []\<rparr>
       (map snd ys) = Inr t"
    and ne: "fieldnames \<noteq> []"
    and fs': "fs' (if \<not> endswith filepath fileExtension then filepath @ fileExtension else filepath)
       = Some (Store \<lparr>admin = Some (zip (map int [1 ..< Suc (length fieldnames)]) fieldnames),
                      dictionary = Some t\<rparr>)"
    by blast
  have wf0: "wf_table \<lparr>columns = fieldnames, unique_on = Some (hd fieldnames), rows = []\<rparr>"
    by (simp add: wf_table_def)
  from insert_records_wf [OF wf0 ins] have wf: "wf_table t" and len: "length (rows t) = length ys"
    by simp_all
  define ar where "ar = zip (map int [1 ..< Suc (length fieldnames)]) fieldnames"
  have "\<exists>a. ar = (1, hd fieldnames) # a \<and> hd fieldnames # map snd a = fieldnames"
  proof (cases fieldnames)
    case Nil
    with ne show ?thesis by simp
  next
    case (Cons f fs0)
    have "[1 ..< Suc (length fieldnames)] = 1 # [2 ..< Suc (length fieldnames)]"
      using upt_conv_Cons [of 1 "Suc (length fieldnames)"] Cons
      by (simp add: numeral_2_eq_2 del: upt_Suc)
    with Cons show ?thesis by (simp add: ar_def map_snd_zip del: upt_Suc)
  qed
  then obtain a where ar: "ar = (1, hd fieldnames) # a"
    and fn: "hd fieldnames # map snd a = fieldnames"
    by blast
  have fs'': "fs' (if \<not> endswith filepath fileExtension then filepath @ fileExtension else filepath)
       = Some (Store \<lparr>admin = Some ar, dictionary = Some t\<rparr>)"
    unfolding ar_def by (rule fs')
  have "screedDB_init fs' filepath =
          Inr \<lparr>s_db = t, s_fieldTuple = fieldnames, s_queryBy = hd fieldnames,
               s_len = max_rowid (rows t)\<rparr>"
    by (simp add: screedDB_init_def getScreedDB_def fs'' ar fn)
  with wf len that show ?thesis by simp
qed

text \<open>
  For a build that read at least one record, the opened database reports their number.
\<close>

lemma length_after_build:
  assumes "create_db fs filepath fieldnames (ys, e, H) = Some (Inr u, fs')" "ys \<noteq> []"
  shows "\<exists>s. screedDB_init fs' filepath = Inr s \<and> py_len s = Inr (int (length ys))"
proof -
  from opened_after_build [OF assms(1)] obtain s where
    s: "screedDB_init fs' filepath = Inr s" "wf_table (s_db s)"
    "length (rows (s_db s)) = length ys" "s_len s = max_rowid (rows (s_db s))"
    by blast
  with assms(2) max_rowid_wf [OF s(2)] have "py_len s = Inr (int (length ys))"
    by (auto simp: py_len_def dunder_len_def)
  with s(1) show ?thesis by blast
qed

text \<open>
  C4 asks that the opened database reports the number of records parsed, 0 for an input
  without records. The empty FASTA file is parsed into no record and the build succeeds,
  but the database then opened has no length: \<open>__len__\<close> returns None and \<open>len\<close> raises
  TypeError.
\<close>

theorem empty_store_len_is_None:
  "faiter [] [] = ([], StopIteration, [Map.empty])
   \<and> (case read_fasta_sequences [''e.fa'' \<mapsto> Text []] ''e.fa'' of
        Some (Inr u, fs') \<Rightarrow>
          (case screedDB_init fs' ''e.fa'' of
             Inr s \<Rightarrow> dunder_len s = None \<and> py_len s = Inl TypeError
           | Inl e \<Rightarrow> False)
      | _ \<Rightarrow> False)"
  by (simp add: faiter_def new_dict_def fa_loop.simps
      read_fasta_sequences_def open_rb_def create_db_def FASTAFIELDTYPES_def PRIMARY_KEY_def
      endswith_def fileExtension_def max_rowid_def Let_def
      screedDB_init_def getScreedDB_def py_len_def dunder_len_def)

section \<open>Example databases\<close>

text \<open>
  Scenario A of the spec: a FASTA file with the records \<open>A\<close> (sequence \<open>ACGT\<close>, no
  description) and \<open>B\<close> (sequence \<open>TTTT\<close>, description \<open>sample\<close>), and the database
  that building and opening it gives.
\<close>

definition scenario_A :: fs where
  "scenario_A = [''a.fa'' \<mapsto> Text [''>A'', ''ACGT'', ''>B sample'', ''TTTT'']]"

definition scenario_A_db :: screedDB where
  "scenario_A_db =
     \<lparr>s_db = \<lparr>columns = [''name'', ''description'', ''sequence''],
              unique_on = Some ''name'',
              rows = [(1, [''sequence'' \<mapsto> ''ACGT'', ''description'' \<mapsto> [], ''name'' \<mapsto> ''A'']),
                      (2, [''sequence'' \<mapsto> ''TTTT'', ''description'' \<mapsto> ''sample'',
                           ''name'' \<mapsto> ''B''])]\<rparr>,
      s_fieldTuple = [''name'', ''description'', ''sequence''],
      s_queryBy = ''name'',
      s_len = Some 2\<rparr>"

lemma scenario_A_built:
  "\<exists>fs'. read_fasta_sequences scenario_A ''a.fa'' = Some (Inr (), fs')
         \<and> screedDB_init fs' ''a.fa'' = Inr scenario_A_db"
  by (simp add: scenario_A_def scenario_A_db_def faiter_def new_dict_def fa_loop.simps fa_body_def
      fa_sequence.simps startswith_def strip_def isspace_def split1_def dict_setitem_def
      read_fasta_sequences_def open_rb_def create_db_def FASTAFIELDTYPES_def PRIMARY_KEY_def
      endswith_def fileExtension_def insert_row_def max_rowid_def Let_def
      screedDB_init_def getScreedDB_def)

lemma scenario_A_wf: "wf_table (s_db scenario_A_db)"
  by (simp add: wf_table_def scenario_A_db_def)

section \<open>Key lookup and positional lookup\<close>



section \<open>Iteration over an opened database\<close>

lemmas db_eval = getitem_def buildRecord_def select_where_def column_value_def
  PRIMARY_KEY_def mk_record_def itervalues_def iteritems_def items_def values_of_def keys_def
  iterkeys_def dunder_len_def py_len_def List.map_filter_def str_int_def str_nat.simps
  digit_char_def loadRecordByIndex_def

lemma scenario_A_items:
  "iteritems scenario_A_db =
     Inr (map (\<lambda>r. (str_int (fst r - 1), mk_record (s_fieldTuple scenario_A_db) r))
            (rows (s_db scenario_A_db)))"
  by (rule iteritems_wf [OF scenario_A_wf]) (simp_all add: scenario_A_db_def max_rowid_def)

text \<open>
  C6 says that each pair \<open>(k, r)\<close> of \<open>items()\<close> has a key \<open>k\<close> whose lookup returns \<open>r\<close>,
  and that the first components of \<open>items()\<close> are the \<open>keys()\<close>. In the database of
  scenario A the items are keyed \<open>0\<close> and \<open>1\<close>, the keys are \<open>A\<close> and \<open>B\<close>, and the lookup
  of the key \<open>0\<close> raises KeyError.
\<close>

theorem items_not_keyed_by_keys_counterexample:
  "(case read_fasta_sequences scenario_A ''a.fa'' of
      Some (Inr u, fs') \<Rightarrow>
        (case screedDB_init fs' ''a.fa'' of
           Inr s \<Rightarrow>
             (case items s of
                Inr kvs \<Rightarrow> map fst kvs = [''0'', ''1'']
                           \<and> keys s = [Str ''A'', Str ''B'']
                           \<and> getitem s ''0'' = Inl KeyError
              | Inl e \<Rightarrow> False)
         | Inl e \<Rightarrow> False)
    | _ \<Rightarrow> False)"
proof -
  from scenario_A_built obtain fs' where
    b: "read_fasta_sequences scenario_A ''a.fa'' = Some (Inr (), fs')"
    and d: "screedDB_init fs' ''a.fa'' = Inr scenario_A_db"
    by blast
  have "(case items scenario_A_db of
           Inr kvs \<Rightarrow> map fst kvs = [''0'', ''1'']
                      \<and> keys scenario_A_db = [Str ''A'', Str ''B'']
                      \<and> getitem scenario_A_db ''0'' = Inl KeyError
         | Inl e \<Rightarrow> False)"
    by (simp add: scenario_A_items items_def)
       (simp add: db_eval scenario_A_db_def)
  with b d show ?thesis by simp
qed


text \<open>
  C6 as the code has it: in an opened database with at least one record, \<open>values()\<close> and
  \<open>itervalues()\<close> give the records in RowID order, the \<open>j\<close>-th being the record of row
  index \<open>j\<close>; \<open>items()\<close> and \<open>iteritems()\<close> pair each of them with the decimal text of
  its row index (not with its lookup key), so that the positional lookup of the index
  returns the record; and each has exactly \<open>len\<close> elements.
\<close>

theorem items_keyed_by_row_index:
  assumes "wf_table (s_db s)" "s_len s = max_rowid (rows (s_db s))" "rows (s_db s) \<noteq> []"
  shows "\<exists>vs. itervalues s = Inr vs \<and> values_of s = Inr vs
           \<and> iteritems s = Inr (zip (map (\<lambda>j. str_int (int j)) [0 ..< length vs]) vs)
           \<and> items s = iteritems s
           \<and> py_len s = Inr (int (length vs))
           \<and> (\<forall>j < length vs. (vs ! j) PRIMARY_KEY = Some (Num (int j))
                                \<and> loadRecordByIndex s (int j) = Inr (vs ! j))"
proof -
  let ?rs = "rows (s_db s)" and ?mk = "mk_record (s_fieldTuple s)"
  have idx: "\<And>j. j < length ?rs \<Longrightarrow> fst (?rs ! j) - 1 = int j"
    using wf_table_nth [OF assms(1)] by simp
  have v: "itervalues s = Inr (map ?mk ?rs)" by (rule itervalues_wf [OF assms])
  have "map (\<lambda>r. (str_int (fst r - 1), ?mk r)) ?rs
        = zip (map (\<lambda>j. str_int (int j)) [0 ..< length ?rs]) (map ?mk ?rs)"
    by (rule nth_equalityI) (simp_all add: idx)
  then have i: "iteritems s
        = Inr (zip (map (\<lambda>j. str_int (int j)) [0 ..< length (map ?mk ?rs)]) (map ?mk ?rs))"
    by (simp add: iteritems_wf [OF assms])
  have l: "py_len s = Inr (int (length (map ?mk ?rs)))"
    using assms max_rowid_wf [OF assms(1)] by (simp add: py_len_def dunder_len_def)
  have "\<forall>j < length (map ?mk ?rs). (map ?mk ?rs ! j) PRIMARY_KEY = Some (Num (int j))
          \<and> loadRecordByIndex s (int j) = Inr (map ?mk ?rs ! j)"
    by (simp add: idx loadRecordByIndex_wf [OF assms(1)])
  with v i l show ?thesis by (auto simp: values_of_def items_def)
qed

text \<open>
  An instance, in the database of scenario A: two values, the items keyed \<open>0\<close> and \<open>1\<close>,
  and the record at index 1 is \<open>B\<close>.
\<close>

theorem items_keyed_by_row_index_witness:
  "wf_table (s_db scenario_A_db)
   \<and> s_len scenario_A_db = max_rowid (rows (s_db scenario_A_db))
   \<and> rows (s_db scenario_A_db) \<noteq> []
   \<and> (\<exists>vs. itervalues scenario_A_db = Inr vs \<and> length vs = 2
          \<and> items scenario_A_db = Inr (zip [''0'', ''1''] vs)
          \<and> py_len scenario_A_db = Inr 2
          \<and> loadRecordByIndex scenario_A_db 1 = Inr (vs ! 1)
          \<and> (vs ! 1) ''name'' = Some (Str ''B''))"
proof -
  have a: "s_len scenario_A_db = max_rowid (rows (s_db scenario_A_db))"
    and b: "rows (s_db scenario_A_db) \<noteq> []"
    by (simp_all add: scenario_A_db_def max_rowid_def)
  from items_keyed_by_row_index [OF scenario_A_wf a b] obtain vs where
    vs: "itervalues scenario_A_db = Inr vs"
    "iteritems scenario_A_db = Inr (zip (map (\<lambda>j. str_int (int j)) [0 ..< length vs]) vs)"
    "items scenario_A_db = iteritems scenario_A_db"
    "py_len scenario_A_db = Inr (int (length vs))"
    "\<forall>j < length vs. (vs ! j) PRIMARY_KEY = Some (Num (int j))
                        \<and> loadRecordByIndex scenario_A_db (int j) = Inr (vs ! j)"
    by blast
  have "py_len scenario_A_db = Inr 2" by (simp add: py_len_def dunder_len_def scenario_A_db_def)
  with vs(4) have n: "length vs = 2" by simp
  then have z: "map (\<lambda>j. str_int (int j)) [0 ..< length vs] = [''0'', ''1'']"
    by (simp add: upt_rec [of 0] upt_rec [of "Suc 0"] numeral_2_eq_2 str_int_def str_nat.simps
        digit_char_def)
  from vs(5) n have l: "loadRecordByIndex scenario_A_db 1 = Inr (vs ! 1)"
    by (auto simp: numeral_2_eq_2 dest: spec [of _ 1])
  have "loadRecordByIndex scenario_A_db 1 = Inr (mk_record (s_fieldTuple scenario_A_db)
          (rows (s_db scenario_A_db) ! 1))"
    by (simp add: db_eval scenario_A_db_def Let_def)
  with l have "(vs ! 1) ''name'' = Some (Str ''B'')"
    by (simp add: scenario_A_db_def mk_record_def PRIMARY_KEY_def)
  with vs n z l a b scenario_A_wf show ?thesis by simp
qed

section \<open>The FASTQ writer\<close>

lemma linewrap_lines:
  "\<exists>ls. linewrap x = str_join [NL] ls \<and> concat ls = x
        \<and> (\<forall>l \<in> set ls. l \<noteq> [] \<and> length l \<le> 80)
        \<and> (\<forall>l \<in> set (butlast ls). length l = 80)"
proof -
  let ?ls = "linewrap_loop x 0 []"
  have "concat ?ls = x" using linewrap_loop_concat [of x 0] by simp
  moreover have "\<forall>l \<in> set ?ls. l \<noteq> [] \<and> length l \<le> 80"
    using linewrap_loop_lengths [of x 0] by (auto simp: MAXLINELEN_def)
  moreover have "\<forall>l \<in> set (butlast ?ls). length l = 80"
    using linewrap_loop_full [of x 0] by (simp add: MAXLINELEN_def)
  ultimately show ?thesis unfolding linewrap_def by blast
qed

lemma linewrap_short: "length s \<le> 80 \<Longrightarrow> linewrap s = s"
proof (cases "s = []")
  case True
  then show ?thesis by (simp add: linewrap_def linewrap_loop_done)
next
  case False
  assume "length s \<le> 80"
  then have "linewrap_loop s (0 + MAXLINELEN) [] = []"
    by (intro linewrap_loop_done) (simp add: MAXLINELEN_def)
  with False \<open>length s \<le> 80\<close> have "linewrap_loop s 0 [] = [s]"
    by (simp add: linewrap_loop_step [of 0 s] MAXLINELEN_def)
  then show ?thesis by (simp add: linewrap_def)
qed

lemma fastq_entry_text:
  assumes "v ''name'' = Some (Str nm)" "v ''sequence'' = Some (Str sq)"
    and "\<forall>i. v ''accuracy'' \<noteq> Some (Num i)"
  shows "fastq_entry v =
           Inr (''@'' @ nm @ '' ''
                @ py_str (case v ''description'' of Some d \<Rightarrow> d
                          | None \<Rightarrow> (case v ''annotations'' of Some a \<Rightarrow> a | None \<Rightarrow> Str []))
                @ [NL] @ linewrap sq @ [NL] @ ''+'' @ [NL]
                @ linewrap (case v ''accuracy'' of Some (Str a) \<Rightarrow> a
                            | _ \<Rightarrow> replicate (length sq) null_accuracy)
                @ [NL])"
proof (cases "v ''accuracy''")
  case None
  with assms show ?thesis
    by (simp add: fastq_entry_def generateAccuracy_def getComments_def)
next
  case (Some a)
  with assms(3) obtain t where "a = Str t" by (cases a) auto
  with Some assms show ?thesis
    by (simp add: fastq_entry_def generateAccuracy_def getComments_def)
qed

lemma collect_map_Inr:
  "\<forall>x \<in> set xs. \<exists>y. f x = Inr y \<Longrightarrow>
   \<exists>ys. collect (map f xs) = Inr ys \<and> length ys = length xs
        \<and> (\<forall>j < length xs. f (xs ! j) = Inr (ys ! j))"
proof (induction xs)
  case Nil
  show ?case by simp
next
  case (Cons x xs)
  from Cons.prems obtain y where y: "f x = Inr y" by auto
  from Cons obtain ys where ys: "collect (map f xs) = Inr ys" "length ys = length xs"
    "\<forall>j < length xs. f (xs ! j) = Inr (ys ! j)"
    by auto
  have "\<forall>j < length (x # xs). f ((x # xs) ! j) = Inr ((y # ys) ! j)"
    using y ys(3) by (auto simp: nth_Cons split: nat.splits)
  with y ys show ?case by auto
qed

text \<open>
  C8: for a database with the fields \<open>name\<close> and \<open>sequence\<close>, \<open>toFastq\<close> writes one entry
  for each record, in RowID order (entry \<open>j\<close> is that of the row with RowID \<open>j + 1\<close>); each
  is \<open>@name comment\<close>, the wrapped sequence, \<open>+\<close> and the wrapped quality, every part ended
  by a newline. The comment is the description if the record has one, else the
  annotations, else empty; the quality is the accuracy if the record has one, else the
  sentinel character repeated to the length of the sequence. Wrapping joins by newlines
  lines of at most 80 characters, all but the last of exactly 80, whose concatenation is the
  field.
\<close>

theorem toFastq_output:
  assumes "screedDB_init fs dbFile = Inr s" "wf_table (s_db s)" "rows (s_db s) \<noteq> []"
    and "''name'' \<in> set (s_fieldTuple s)" "''sequence'' \<in> set (s_fieldTuple s)"
    and "\<forall>r \<in> set (rows (s_db s)). snd r ''name'' \<noteq> None \<and> snd r ''sequence'' \<noteq> None"
  shows "(\<exists>es. toFastq fs dbFile = Inr (concat es) \<and> length es = length (rows (s_db s))
            \<and> (\<forall>j < length es.
                  fst (rows (s_db s) ! j) = int j + 1
                  \<and> (\<exists>v nm sq. v = mk_record (s_fieldTuple s) (rows (s_db s) ! j)
                        \<and> v ''name'' = Some (Str nm) \<and> v ''sequence'' = Some (Str sq)
                        \<and> es ! j =
                            ''@'' @ nm @ '' ''
                            @ py_str (case v ''description'' of Some d \<Rightarrow> d
                                      | None \<Rightarrow> (case v ''annotations'' of Some a \<Rightarrow> a
                                                   | None \<Rightarrow> Str []))
                            @ [NL] @ linewrap sq @ [NL] @ ''+'' @ [NL]
                            @ linewrap (case v ''accuracy'' of Some (Str a) \<Rightarrow> a
                                        | _ \<Rightarrow> replicate (length sq) null_accuracy)
                            @ [NL])))
         \<and> (\<exists>ls. linewrap x = str_join [NL] ls \<and> concat ls = x
                \<and> (\<forall>l \<in> set ls. l \<noteq> [] \<and> length l \<le> 80)
                \<and> (\<forall>l \<in> set (butlast ls). length l = 80))"
proof -
  let ?rs = "rows (s_db s)" and ?mk = "mk_record (s_fieldTuple s)"
  have len: "s_len s = max_rowid ?rs"
    using assms(1)
    by (auto simp: screedDB_init_def split: sum.splits prod.splits)
  have vs: "itervalues s = Inr (map ?mk ?rs)"
    by (rule itervalues_wf [OF assms(2) len assms(3)])
  have fields: "\<And>r. r \<in> set ?rs \<Longrightarrow>
      \<exists>nm sq. ?mk r ''name'' = Some (Str nm) \<and> ?mk r ''sequence'' = Some (Str sq)
              \<and> (\<forall>i. ?mk r ''accuracy'' \<noteq> Some (Num i))"
    using assms(4,5,6) by (auto simp: mk_record_def PRIMARY_KEY_def)
  have "\<forall>v \<in> set (map ?mk ?rs). \<exists>y. fastq_entry v = Inr y"
    using fields fastq_entry_text by fastforce
  from collect_map_Inr [OF this] obtain es where
    es: "collect (map fastq_entry (map ?mk ?rs)) = Inr es" "length es = length ?rs"
    "\<forall>j < length ?rs. fastq_entry (?mk (?rs ! j)) = Inr (es ! j)"
    by auto
  have out: "toFastq fs dbFile = Inr (concat es)"
    by (simp only: toFastq_def assms(1) vs es(1) sum.case)
  have "\<forall>j < length es.
          fst (?rs ! j) = int j + 1
          \<and> (\<exists>v nm sq. v = ?mk (?rs ! j)
                \<and> v ''name'' = Some (Str nm) \<and> v ''sequence'' = Some (Str sq)
                \<and> es ! j =
                    ''@'' @ nm @ '' ''
                    @ py_str (case v ''description'' of Some d \<Rightarrow> d
                              | None \<Rightarrow> (case v ''annotations'' of Some a \<Rightarrow> a
                                           | None \<Rightarrow> Str []))
                    @ [NL] @ linewrap sq @ [NL] @ ''+'' @ [NL]
                    @ linewrap (case v ''accuracy'' of Some (Str a) \<Rightarrow> a
                                | _ \<Rightarrow> replicate (length sq) null_accuracy)
                    @ [NL])"
  proof (intro allI impI)
    fix j assume j: "j < length es"
    with es(2) have jr: "j < length ?rs" by simp
    then have "?rs ! j \<in> set ?rs" by simp
    from fields [OF this] obtain nm sq where
      f: "?mk (?rs ! j) ''name'' = Some (Str nm)" "?mk (?rs ! j) ''sequence'' = Some (Str sq)"
      "\<forall>i. ?mk (?rs ! j) ''accuracy'' \<noteq> Some (Num i)"
      by blast
    from fastq_entry_text [OF f] es(3) jr have
      "es ! j = ''@'' @ nm @ '' ''
                    @ py_str (case ?mk (?rs ! j) ''description'' of Some d \<Rightarrow> d
                              | None \<Rightarrow> (case ?mk (?rs ! j) ''annotations'' of Some a \<Rightarrow> a
                                           | None \<Rightarrow> Str []))
                    @ [NL] @ linewrap sq @ [NL] @ ''+'' @ [NL]
                    @ linewrap (case ?mk (?rs ! j) ''accuracy'' of Some (Str a) \<Rightarrow> a
                                | _ \<Rightarrow> replicate (length sq) null_accuracy)
                    @ [NL]"
      by simp
    with f wf_table_nth [OF assms(2) jr]
    show "fst (?rs ! j) = int j + 1
          \<and> (\<exists>v nm sq. v = ?mk (?rs ! j)
                \<and> v ''name'' = Some (Str nm) \<and> v ''sequence'' = Some (Str sq)
                \<and> es ! j =
                    ''@'' @ nm @ '' ''
                    @ py_str (case v ''description'' of Some d \<Rightarrow> d
                              | None \<Rightarrow> (case v ''annotations'' of Some a \<Rightarrow> a
                                           | None \<Rightarrow> Str []))
                    @ [NL] @ linewrap sq @ [NL] @ ''+'' @ [NL]
                    @ linewrap (case v ''accuracy'' of Some (Str a) \<Rightarrow> a
                                | _ \<Rightarrow> replicate (length sq) null_accuracy)
                    @ [NL])"
      by blast
  qed
  with out es(2) linewrap_lines [of x] show ?thesis by blast
qed


text \<open>
  Scenario B of the spec: a FASTQ file with the one record \<open>R1\<close>, sequence \<open>ACGTACGT\<close>,
  quality \<open>IIIIIIII\<close>, and the database that building and opening it gives.
\<close>

definition scenario_B :: fs where
  "scenario_B = [''b.fq'' \<mapsto> Text [''@R1'', ''ACGTACGT'', ''+'', ''IIIIIIII'']]"

definition scenario_B_db :: screedDB where
  "scenario_B_db =
     \<lparr>s_db = \<lparr>columns = [''name'', ''annotations'', ''sequence'', ''accuracy''],
              unique_on = Some ''name'',
              rows = [(1, [''accuracy'' \<mapsto> ''IIIIIIII'', ''sequence'' \<mapsto> ''ACGTACGT'',
                           ''annotations'' \<mapsto> [], ''name'' \<mapsto> ''R1''])]\<rparr>,
      s_fieldTuple = [''name'', ''annotations'', ''sequence'', ''accuracy''],
      s_queryBy = ''name'',
      s_len = Some 1\<rparr>"

lemma fq_sequence_simps:
  "fq_sequence line [] s = (if startswith line CHR ''+'' then Some (s, []) else None)"
  "fq_sequence line (l # h) s =
     (if startswith line CHR ''+'' then Some (s, l # h) else fq_sequence (strip l) h (s @ [line]))"
  by (simp_all add: fq_sequence_plus fq_sequence_eof fq_sequence_Cons)

lemma scenario_B_built:
  "\<exists>fs'. read_fastq_sequences scenario_B ''b.fq'' = Some (Inr (), fs')
         \<and> screedDB_init fs' ''b.fq'' = Inr scenario_B_db"
  by (simp add: scenario_B_def scenario_B_db_def fqiter_def new_dict_def fq_loop.simps fq_body_def
      fq_sequence_simps fq_accuracy.simps startswith_def strip_def isspace_def split1_def
      dict_setitem_def read_fastq_sequences_def open_rb_def create_db_def FASTQFIELDTYPES_def
      PRIMARY_KEY_def endswith_def fileExtension_def insert_row_def max_rowid_def Let_def
      screedDB_init_def getScreedDB_def)

text \<open>
  An instance: the database of scenario B is written back as the four lines of its source,
  with the empty comment after the name.
\<close>

theorem toFastq_output_witness:
  "(case read_fastq_sequences scenario_B ''b.fq'' of
      Some (Inr u, fs') \<Rightarrow>
        screedDB_init fs' ''b.fq'' = Inr scenario_B_db
        \<and> toFastq fs' ''b.fq''
            = Inr (''@R1 '' @ [NL] @ ''ACGTACGT'' @ [NL] @ ''+'' @ [NL] @ ''IIIIIIII'' @ [NL])
    | _ \<Rightarrow> False)
   \<and> wf_table (s_db scenario_B_db) \<and> rows (s_db scenario_B_db) \<noteq> []
   \<and> ''name'' \<in> set (s_fieldTuple scenario_B_db)
   \<and> ''sequence'' \<in> set (s_fieldTuple scenario_B_db)"
proof -
  from scenario_B_built obtain fs' where
    b: "read_fastq_sequences scenario_B ''b.fq'' = Some (Inr (), fs')"
    and d: "screedDB_init fs' ''b.fq'' = Inr scenario_B_db"
    by blast
  have wf: "wf_table (s_db scenario_B_db)" by (simp add: wf_table_def scenario_B_db_def)
  have ne: "rows (s_db scenario_B_db) \<noteq> []" by (simp add: scenario_B_db_def)
  have nm: "''name'' \<in> set (s_fieldTuple scenario_B_db)"
    and sq: "''sequence'' \<in> set (s_fieldTuple scenario_B_db)"
    by (simp_all add: scenario_B_db_def)
  have full: "\<forall>r \<in> set (rows (s_db scenario_B_db)).
                snd r ''name'' \<noteq> None \<and> snd r ''sequence'' \<noteq> None"
    by (simp add: scenario_B_db_def)
  from toFastq_output [OF d wf ne nm sq full, of "[]"]
  have "\<exists>es. toFastq fs' ''b.fq'' = Inr (concat es)
            \<and> length es = length (rows (s_db scenario_B_db))
            \<and> (\<forall>j < length es.
                  fst (rows (s_db scenario_B_db) ! j) = int j + 1
                  \<and> (\<exists>v nm sq. v = mk_record (s_fieldTuple scenario_B_db)
                                           (rows (s_db scenario_B_db) ! j)
                        \<and> v ''name'' = Some (Str nm) \<and> v ''sequence'' = Some (Str sq)
                        \<and> es ! j =
                            ''@'' @ nm @ '' ''
                            @ py_str (case v ''description'' of Some d \<Rightarrow> d
                                      | None \<Rightarrow> (case v ''annotations'' of Some a \<Rightarrow> a
                                                   | None \<Rightarrow> Str []))
                            @ [NL] @ linewrap sq @ [NL] @ ''+'' @ [NL]
                            @ linewrap (case v ''accuracy'' of Some (Str a) \<Rightarrow> a
                                        | _ \<Rightarrow> replicate (length sq) null_accuracy)
                            @ [NL]))"
    by (rule conjunct1)
  then obtain es where
    out: "toFastq fs' ''b.fq'' = Inr (concat es)"
    and n: "length es = length (rows (s_db scenario_B_db))"
    and e: "\<forall>j < length es.
                  fst (rows (s_db scenario_B_db) ! j) = int j + 1
                  \<and> (\<exists>v nm sq. v = mk_record (s_fieldTuple scenario_B_db)
                                           (rows (s_db scenario_B_db) ! j)
                        \<and> v ''name'' = Some (Str nm) \<and> v ''sequence'' = Some (Str sq)
                        \<and> es ! j =
                            ''@'' @ nm @ '' ''
                            @ py_str (case v ''description'' of Some d \<Rightarrow> d
                                      | None \<Rightarrow> (case v ''annotations'' of Some a \<Rightarrow> a
                                                   | None \<Rightarrow> Str []))
                            @ [NL] @ linewrap sq @ [NL] @ ''+'' @ [NL]
                            @ linewrap (case v ''accuracy'' of Some (Str a) \<Rightarrow> a
                                        | _ \<Rightarrow> replicate (length sq) null_accuracy)
                            @ [NL])"
    by (elim exE conjE)
  from n have n1: "length es = 1" by (simp add: scenario_B_db_def)
  then have c: "concat es = es ! 0" by (cases es) auto
  from n1 have "0 < length es" by simp
  with e have "\<exists>v nm sq. v = mk_record (s_fieldTuple scenario_B_db)
                                           (rows (s_db scenario_B_db) ! 0)
                        \<and> v ''name'' = Some (Str nm) \<and> v ''sequence'' = Some (Str sq)
                        \<and> es ! 0 =
                            ''@'' @ nm @ '' ''
                            @ py_str (case v ''description'' of Some d \<Rightarrow> d
                                      | None \<Rightarrow> (case v ''annotations'' of Some a \<Rightarrow> a
                                                   | None \<Rightarrow> Str []))
                            @ [NL] @ linewrap sq @ [NL] @ ''+'' @ [NL]
                            @ linewrap (case v ''accuracy'' of Some (Str a) \<Rightarrow> a
                                        | _ \<Rightarrow> replicate (length sq) null_accuracy)
                            @ [NL]"
    by (elim allE [of _ 0] impE conjE)
  then obtain v nm' sq' where
    v: "v = mk_record (s_fieldTuple scenario_B_db) (rows (s_db scenario_B_db) ! 0)"
    and vn: "v ''name'' = Some (Str nm')" and vs: "v ''sequence'' = Some (Str sq')"
    and e0: "es ! 0 =
                            ''@'' @ nm' @ '' ''
                            @ py_str (case v ''description'' of Some d \<Rightarrow> d
                                      | None \<Rightarrow> (case v ''annotations'' of Some a \<Rightarrow> a
                                                   | None \<Rightarrow> Str []))
                            @ [NL] @ linewrap sq' @ [NL] @ ''+'' @ [NL]
                            @ linewrap (case v ''accuracy'' of Some (Str a) \<Rightarrow> a
                                        | _ \<Rightarrow> replicate (length sq') null_accuracy)
                            @ [NL]"
    by (elim exE conjE)
  have f: "v ''name'' = Some (Str ''R1'')" "v ''sequence'' = Some (Str ''ACGTACGT'')"
    "v ''description'' = None" "v ''annotations'' = Some (Str [])"
    "v ''accuracy'' = Some (Str ''IIIIIIII'')"
    by (simp_all add: v scenario_B_db_def mk_record_def PRIMARY_KEY_def)
  from vn vs f have "nm' = ''R1''" "sq' = ''ACGTACGT''" by simp_all
  with e0 f have "es ! 0 = ''@R1 '' @ [NL] @ ''ACGTACGT'' @ [NL] @ ''+'' @ [NL] @ ''IIIIIIII'' @ [NL]"
    by (simp add: linewrap_short)
  with out c b d wf ne nm sq show ?thesis by simp
qed

section \<open>A build that fails\<close>

text \<open>
  Scenario C of the spec: a FASTQ file whose one record has a sequence of length 5 and a
  quality of length 4. Here a database from an earlier build sits at the target path.
\<close>

definition old_store :: sqldb where
  "old_store =
     \<lparr>admin = Some [(1, ''name'')],
      dictionary = Some \<lparr>columns = [''name''], unique_on = Some ''name'',
                         rows = [(1, [''name'' \<mapsto> ''old''])]\<rparr>\<rparr>"

definition scenario_C :: fs where
  "scenario_C = [''c.fq'' \<mapsto> Text [''@R1'', ''ACGTA'', ''+'', ''IIII''],
                 ''c.fq_screed'' \<mapsto> Store old_store]"

lemma scenario_C_parse:
  "\<exists>H. fqiter [''@R1'', ''ACGTA'', ''+'', ''IIII''] [] = ([], Raised (IOError Unequal_lengths), H)"
  by (simp add: fqiter_def new_dict_def fq_loop.simps fq_body_def fq_sequence_simps
      fq_accuracy.simps startswith_def strip_def isspace_def split1_def Let_def)

text \<open>
  C1 says that a build whose iterator raises a format error leaves no new store at the
  target path, and that a store found there survives. In scenario C the build fails with
  the IOError of the length check, the store found at the path is gone, and a new one is
  there, which opens and has no rows.
\<close>

theorem failed_build_replaces_store_counterexample:
  "(case read_fastq_sequences scenario_C ''c.fq'' of
      Some (Inl e, fs') \<Rightarrow>
        e = IOError Unequal_lengths
        \<and> scenario_C ''c.fq_screed'' = Some (Store old_store)
        \<and> fs' ''c.fq_screed'' \<noteq> None
        \<and> fs' ''c.fq_screed'' \<noteq> Some (Store old_store)
        \<and> (case screedDB_init fs' ''c.fq'' of Inr s \<Rightarrow> rows (s_db s) = [] | Inl x \<Rightarrow> False)
    | _ \<Rightarrow> False)"
proof -
  from scenario_C_parse obtain H where
    p: "fqiter [''@R1'', ''ACGTA'', ''+'', ''IIII''] [] = ([], Raised (IOError Unequal_lengths), H)"
    by blast
  show ?thesis
    by (simp add: read_fastq_sequences_def open_rb_def scenario_C_def p create_db_def
        FASTQFIELDTYPES_def PRIMARY_KEY_def endswith_def fileExtension_def Let_def
        old_store_def screedDB_init_def getScreedDB_def)
qed

text \<open>
  C1 as the code has it: when the iterator raises, \<open>create_db\<close> fails (with the iterator's
  error when every record read before it was inserted) and commits no record; whatever was
  at the target path has been removed before the first record is read, and the path holds
  a new database with the field names and an empty table.
\<close>

theorem failed_build_outcome:
  assumes "rcrditer = (ys, Raised err, H)"
    and "fieldnames \<noteq> []" "distinct (PRIMARY_KEY # fieldnames)"
  shows "\<exists>e. create_db fs filepath fieldnames rcrditer =
           Some (Inl e,
                 fs((if \<not> endswith filepath fileExtension then filepath @ fileExtension
                     else filepath) \<mapsto>
                    Store \<lparr>admin = Some (zip (map int [1 ..< Suc (length fieldnames)]) fieldnames),
                           dictionary = Some \<lparr>columns = fieldnames,
                                               unique_on = Some (hd fieldnames),
                                               rows = []\<rparr>\<rparr>))
             \<and> ((\<exists>t. insert_records fieldnames
                        \<lparr>columns = fieldnames, unique_on = Some (hd fieldnames), rows = []\<rparr>
                        (map snd ys) = Inr t) \<longrightarrow> e = err)"
proof (cases "insert_records fieldnames
                \<lparr>columns = fieldnames, unique_on = Some (hd fieldnames), rows = []\<rparr> (map snd ys)")
  case (Inl e)
  with assms show ?thesis by (simp add: create_db_def Let_def)
next
  case (Inr t)
  with assms show ?thesis by (simp add: create_db_def Let_def)
qed

text \<open>
  An instance: scenario C, where the error is the IOError of the length check and the
  database left at \<open>c.fq_screed\<close> has the four FASTQ fields and no rows.
\<close>

theorem failed_build_outcome_witness:
  "(\<exists>H. fqiter [''@R1'', ''ACGTA'', ''+'', ''IIII''] [] = ([], Raised (IOError Unequal_lengths), H))
   \<and> FASTQFIELDTYPES \<noteq> [] \<and> distinct (PRIMARY_KEY # FASTQFIELDTYPES)
   \<and> create_db scenario_C ''c.fq'' FASTQFIELDTYPES (fqiter [''@R1'', ''ACGTA'', ''+'', ''IIII''] [])
       = Some (Inl (IOError Unequal_lengths),
               scenario_C(''c.fq_screed'' \<mapsto>
                 Store \<lparr>admin = Some [(1, ''name''), (2, ''annotations''), (3, ''sequence''),
                                      (4, ''accuracy'')],
                        dictionary = Some \<lparr>columns = FASTQFIELDTYPES, unique_on = Some ''name'',
                                            rows = []\<rparr>\<rparr>))"
proof -
  from scenario_C_parse obtain H where
    p: "fqiter [''@R1'', ''ACGTA'', ''+'', ''IIII''] [] = ([], Raised (IOError Unequal_lengths), H)"
    by blast
  have ne: "FASTQFIELDTYPES \<noteq> []" and d: "distinct (PRIMARY_KEY # FASTQFIELDTYPES)"
    by (simp_all add: FASTQFIELDTYPES_def PRIMARY_KEY_def)
  from failed_build_outcome [OF p ne d, of scenario_C "''c.fq''"]
  have "create_db scenario_C ''c.fq'' FASTQFIELDTYPES (fqiter [''@R1'', ''ACGTA'', ''+'', ''IIII''] [])
       = Some (Inl (IOError Unequal_lengths),
               scenario_C(''c.fq_screed'' \<mapsto>
                 Store \<lparr>admin = Some [(1, ''name''), (2, ''annotations''), (3, ''sequence''),
                                      (4, ''accuracy'')],
                        dictionary = Some \<lparr>columns = FASTQFIELDTYPES, unique_on = Some ''name'',
                                            rows = []\<rparr>\<rparr>))"
    by (auto simp: endswith_def fileExtension_def FASTQFIELDTYPES_def)
  with p ne d show ?thesis by blast
qed

section \<open>The read-only interface\<close>

text \<open>
  Called with the number of arguments its \<open>def\<close> declares, each of the six methods raises
  AttributeError; whatever the arguments, none of them raises the KeyError of a lookup, and
  the database stays as it was.
\<close>

lemma mutators_declared_arity:
  "db_setitem s [x] = (Inl AttributeError, s)"
  "clear s [] = (Inl AttributeError, s)"
  "update s [x] = (Inl AttributeError, s)"
  "setdefault s [x] = (Inl AttributeError, s)"
  "pop s [] = (Inl AttributeError, s)"
  "popitem s [] = (Inl AttributeError, s)"
  by (simp_all add: db_setitem_def clear_def update_def setdefault_def pop_def popitem_def)

lemma mutators_leave_database:
  "snd (db_setitem s args) = s \<and> snd (clear s args) = s \<and> snd (update s args) = s
   \<and> snd (setdefault s args) = s \<and> snd (pop s args) = s \<and> snd (popitem s args) = s
   \<and> fst (db_setitem s args) \<noteq> Inl KeyError \<and> fst (clear s args) \<noteq> Inl KeyError
   \<and> fst (update s args) \<noteq> Inl KeyError \<and> fst (setdefault s args) \<noteq> Inl KeyError
   \<and> fst (pop s args) \<noteq> Inl KeyError \<and> fst (popitem s args) \<noteq> Inl KeyError"
  by (simp add: db_setitem_def clear_def update_def setdefault_def pop_def popitem_def)

text \<open>
  C7 asks that every mutating operation, with every argument, raises the "unsupported
  operation" error (AttributeError). In the database of scenario A the assignment
  \<open>db['A'] = 'x'\<close> raises TypeError instead, and so do \<open>db.pop('A')\<close>,
  \<open>db.setdefault('A', 'x')\<close> and \<open>db.update()\<close>: the parameters of the four \<open>def\<close>s do
  not fit the way a dictionary is called.
\<close>

theorem mutators_wrong_arity_TypeError:
  "subscript_assign scenario_A_db (Str ''A'') (Str ''x'') = (Inl TypeError, scenario_A_db)
   \<and> pop scenario_A_db [Str ''A''] = (Inl TypeError, scenario_A_db)
   \<and> setdefault scenario_A_db [Str ''A'', Str ''x''] = (Inl TypeError, scenario_A_db)
   \<and> update scenario_A_db [] = (Inl TypeError, scenario_A_db)
   \<and> TypeError \<noteq> AttributeError"
  by (simp add: subscript_assign_def db_setitem_def pop_def setdefault_def update_def)

section \<open>What the FASTA parser reads\<close>

text \<open>
  The FASTA format in the words of the spec, on the lines of a stream (each stripped): a
  record begins with a header line; the rest of the header splits on the first space into
  name and description (empty if absent), both trimmed; the lines up to the next line that
  begins with \<open>>\<close> are concatenated into the sequence.
\<close>

definition fa_record :: "string \<Rightarrow> string list \<Rightarrow> pydict" where
  "fa_record header body =
     (case (case split1 (tl header) of Some (n, d) \<Rightarrow> (n, d) | None \<Rightarrow> (tl header, [])) of
        (n, d) \<Rightarrow> [''name'' \<mapsto> strip n, ''description'' \<mapsto> strip d,
                   ''sequence'' \<mapsto> concat body])"

function fa_records :: "string list \<Rightarrow> pydict list" where
  "fa_records [] = []"
| "fa_records (header # ls) =
     fa_record header (takeWhile (\<lambda>l. \<not> startswith l CHR ''>'') ls)
     # fa_records (dropWhile (\<lambda>l. \<not> startswith l CHR ''>'') ls)"
  by pat_completeness auto
termination
  by (relation "measure length") (auto simp: length_dropWhile_le le_imp_less_Suc)

text \<open>
  The lines a parser in the state \<open>(line, h)\<close> still has before it: the line in hand and
  the lines of the handle, stripped, up to the first empty one, which the loops of
  \<open>faiter\<close> take for the end of the stream.
\<close>

definition ahead :: "string \<Rightarrow> handle \<Rightarrow> string list" where
  "ahead line h = takeWhile (\<lambda>l. l \<noteq> []) (line # map strip h)"

lemma ahead_readline:
  "readline h = (l, h1) \<Longrightarrow> ahead (strip l) h1 = takeWhile (\<lambda>l. l \<noteq> []) (map strip h)"
  by (cases h) (auto simp: ahead_def)

lemma fa_sequence_ahead:
  "fa_sequence line h acc = (sl, line', h') \<Longrightarrow>
   sl = acc @ takeWhile (\<lambda>l. \<not> startswith l CHR ''>'') (ahead line h)
   \<and> ahead line' h' = dropWhile (\<lambda>l. \<not> startswith l CHR ''>'') (ahead line h)"
proof (induction line h acc rule: fa_sequence.induct)
  case (1 line h acc)
  show ?case
  proof (cases "line \<noteq> [] \<and> \<not> startswith line CHR ''>''")
    case True
    obtain l h1 where rl: "readline h = (l, h1)" by (cases "readline h")
    from True rl "1.prems" have r: "fa_sequence (strip l) h1 (acc @ [line]) = (sl, line', h')"
      by (simp add: fa_sequence.simps [of line h])
    have a: "ahead line h = line # ahead (strip l) h1"
      using True ahead_readline [OF rl] by (simp add: ahead_def)
    from "1.IH" [OF True rl [symmetric] r] True show ?thesis by (simp add: a)
  next
    case False
    with "1.prems" have r: "sl = acc" "line' = line" "h' = h"
      by (auto simp: fa_sequence.simps [of line h])
    show ?thesis
    proof (cases "line = []")
      case True
      with r show ?thesis by (simp add: ahead_def)
    next
      case False
      with \<open>\<not> (line \<noteq> [] \<and> \<not> startswith line CHR ''>'')\<close> r show ?thesis
        by (simp add: ahead_def)
    qed
  qed
qed

lemma dict_setitem_nth:
  "a < length H \<Longrightarrow> dict_setitem H a k v ! a = (H ! a)(k \<mapsto> v)"
  by (simp add: dict_setitem_def)

text \<open>One pass of the loop leaves in the dict the record of the header and its lines.\<close>

lemma fa_body_record:
  assumes "data < length H" "dom (H ! data) \<subseteq> {''name'', ''description'', ''sequence''}"
    and "line \<noteq> []" "fa_body data line h H = (line', h2, H4)"
  shows "H4 ! data = fa_record line (takeWhile (\<lambda>l. \<not> startswith l CHR ''>'') (tl (ahead line h)))"
    and "ahead line' h2 = dropWhile (\<lambda>l. \<not> startswith l CHR ''>'') (tl (ahead line h))"
    and "dom (H4 ! data) \<subseteq> {''name'', ''description'', ''sequence''}"
proof -
  obtain l h1 where rl: "readline h = (l, h1)" by (cases "readline h")
  obtain sl x y where fs: "fa_sequence (strip l) h1 [] = (sl, x, y)"
    by (cases "fa_sequence (strip l) h1 []")
  obtain n d where nd: "(case split1 (tl line) of Some (n, d) \<Rightarrow> (n, d) | None \<Rightarrow> (tl line, [])) = (n, d)"
    by (cases "case split1 (tl line) of Some (n, d) \<Rightarrow> (n, d) | None \<Rightarrow> (tl line, [])")
  have t: "tl (ahead line h) = ahead (strip l) h1"
    using assms(3) ahead_readline [OF rl] by (simp add: ahead_def)
  from fa_sequence_ahead [OF fs] have
    sl: "sl = takeWhile (\<lambda>l. \<not> startswith l CHR ''>'') (tl (ahead line h))"
    and xy: "ahead x y = dropWhile (\<lambda>l. \<not> startswith l CHR ''>'') (tl (ahead line h))"
    by (simp_all add: t)
  from assms(4) rl fs nd have res: "line' = x" "h2 = y"
    and H4: "H4 = dict_setitem (dict_setitem (dict_setitem (dict_setitem (dict_setitem H
               data ''name'' n) data ''description'' d) data ''name'' (strip n))
               data ''description'' (strip d)) data ''sequence'' (concat sl)"
    by (simp_all add: fa_body_def Let_def)
  from res xy show "ahead line' h2 = dropWhile (\<lambda>l. \<not> startswith l CHR ''>'') (tl (ahead line h))"
    by simp
  have c: "H4 ! data = (H ! data)(''name'' \<mapsto> strip n, ''description'' \<mapsto> strip d,
                                 ''sequence'' \<mapsto> concat sl)"
    using assms(1) by (simp add: H4 dict_setitem_nth)
  then show "dom (H4 ! data) \<subseteq> {''name'', ''description'', ''sequence''}"
    using assms(2) by auto
  have "(H ! data)(''name'' \<mapsto> strip n, ''description'' \<mapsto> strip d, ''sequence'' \<mapsto> concat sl)
        = [''name'' \<mapsto> strip n, ''description'' \<mapsto> strip d, ''sequence'' \<mapsto> concat sl]"
  proof (rule ext)
    fix k
    show "((H ! data)(''name'' \<mapsto> strip n, ''description'' \<mapsto> strip d,
              ''sequence'' \<mapsto> concat sl)) k
          = [''name'' \<mapsto> strip n, ''description'' \<mapsto> strip d, ''sequence'' \<mapsto> concat sl] k"
      using assms(2) by (cases "k \<in> dom (H ! data)") auto
  qed
  with c sl nd show "H4 ! data = fa_record line (takeWhile (\<lambda>l. \<not> startswith l CHR ''>'')
                                                  (tl (ahead line h)))"
    by (simp add: fa_record_def)
qed

lemma fa_loop_records:
  "data < length H \<Longrightarrow> dom (H ! data) \<subseteq> {''name'', ''description'', ''sequence''} \<Longrightarrow>
   ahead line h = [] \<or> startswith (hd (ahead line h)) CHR ''>'' \<Longrightarrow>
   fa_loop data line h H = (ys, e, H') \<Longrightarrow>
   e = StopIteration \<and> map snd ys = fa_records (ahead line h)"
proof (induction data line h H arbitrary: ys e H' rule: fa_loop.induct)
  case (1 data line h H)
  show ?case
  proof (cases "line = []")
    case True
    with "1.prems"(4) show ?thesis by (simp add: fa_loop.simps [of data "[]" h H] ahead_def)
  next
    case False
    then have a: "ahead line h = line # tl (ahead line h)" by (simp add: ahead_def)
    with "1.prems"(3) have sw: "startswith line CHR ''>''" by (metis list.sel(1) list.distinct(1))
    then have nn: "\<not> \<not> startswith line CHR ''>''" by simp
    obtain line' h2 H4 where b: "fa_body data line h H = (line', h2, H4)"
      by (cases "fa_body data line h H")
    obtain ys0 e0 H0 where r: "fa_loop data line' h2 H4 = (ys0, e0, H0)"
      by (cases "fa_loop data line' h2 H4")
    from False sw b r "1.prems"(4) have res: "ys = (data, H4 ! data) # ys0" "e = e0"
      by (auto simp: fa_loop.simps [of data line h H])
    note br = fa_body_record [OF "1.prems"(1,2) False b]
    have next_ok: "ahead line' h2 = [] \<or> startswith (hd (ahead line' h2)) CHR ''>''"
      using hd_dropWhile [of "\<lambda>l. \<not> startswith l CHR ''>''" "tl (ahead line h)"]
      by (auto simp: br(2))
    have lt: "data < length H4" using fa_body_heap_length [OF b] "1.prems"(1) by simp
    from "1.IH" [OF False nn b [symmetric] refl lt br(3) next_ok r]
    have "e0 = StopIteration" "map snd ys0 = fa_records (ahead line' h2)" by simp_all
    with res br(1,2) have "e = StopIteration"
      and "map snd ys = fa_records (line # tl (ahead line h))" by simp_all
    with a show ?thesis by simp
  qed
qed

lemma filter_dropWhile_not: "filter P (dropWhile (\<lambda>x. \<not> P x) xs) = filter P xs"
  by (induction xs) auto

lemma fa_records_count:
  "ls = [] \<or> startswith (hd ls) CHR ''>'' \<Longrightarrow>
   length (fa_records ls) = length (filter (\<lambda>l. startswith l CHR ''>'') ls)"
proof (induction ls rule: fa_records.induct)
  case 1
  show ?case by simp
next
  case (2 header ls)
  have "dropWhile (\<lambda>l. \<not> startswith l CHR ''>'') ls = []
        \<or> startswith (hd (dropWhile (\<lambda>l. \<not> startswith l CHR ''>'') ls)) CHR ''>''"
    using hd_dropWhile [of "\<lambda>l. \<not> startswith l CHR ''>''" ls] by auto
  from "2.IH" [OF this] "2.prems" show ?case
    by (simp add: filter_dropWhile_not)
qed

text \<open>The lines \<open>faiter\<close> reads: those of the stream, stripped, before the first empty one.\<close>

definition fa_lines :: "handle \<Rightarrow> string list" where
  "fa_lines h = takeWhile (\<lambda>l. l \<noteq> []) (map strip h)"

text \<open>
  C3 says that \<open>faiter\<close> yields one record for each header of the stream, with the lines
  up to the next header or the end of the stream as its sequence, and that a non-empty
  stream that does not begin with \<open>>\<close> is refused. A blank line is taken for the end of
  the stream: of the two records below only \<open>A\<close> is yielded, with the sequence \<open>AC\<close>,
  and the stream that begins with a blank line gives no record and no error.
\<close>

theorem faiter_blank_line_counterexample:
  "(case faiter [''>A'', ''AC'', [], ''GT'', ''>B'', ''TT''] [] of
      (ys, e, H) \<Rightarrow> e = StopIteration
                    \<and> map (\<lambda>y. (snd y ''name'', snd y ''sequence'')) ys = [(Some ''A'', Some ''AC'')])
   \<and> (case faiter [[], ''>A'', ''ACGT''] [] of (ys, e, H) \<Rightarrow> ys = [] \<and> e = StopIteration)"
  by (simp add: faiter_def new_dict_def fa_loop.simps fa_body_def fa_sequence.simps
      startswith_def strip_def isspace_def split1_def dict_setitem_def Let_def)

text \<open>
  C3 as the code has it: \<open>faiter\<close> reads the lines of the stream, stripped, up to the
  first blank line or the end. With no such line it yields nothing; when the first does
  not begin with \<open>>\<close> it raises the format error before any record; otherwise it yields,
  in order, one record for each line that begins with \<open>>\<close>: name and description from the
  header (split on the first space, both trimmed, the description empty if absent) and as
  sequence the concatenation of the lines up to the next header.
\<close>

theorem faiter_records:
  assumes "faiter h H = (ys, e, H')"
  shows "(fa_lines h = [] \<longrightarrow> ys = [] \<and> e = StopIteration)
         \<and> (fa_lines h \<noteq> [] \<and> \<not> startswith (hd (fa_lines h)) CHR ''>'' \<longrightarrow>
              ys = [] \<and> e = Raised (IOError Bad_FASTA_format))
         \<and> (fa_lines h \<noteq> [] \<and> startswith (hd (fa_lines h)) CHR ''>'' \<longrightarrow>
              e = StopIteration \<and> map snd ys = fa_records (fa_lines h)
              \<and> length ys = length (filter (\<lambda>l. startswith l CHR ''>'') (fa_lines h)))"
proof -
  obtain l h0 where rl: "readline h = (l, h0)" by (cases "readline h")
  have a: "ahead (strip l) h0 = fa_lines h"
    using ahead_readline [OF rl] by (simp add: fa_lines_def)
  from assms rl have run: "fa_loop (length H) (strip l) h0 (H @ [Map.empty]) = (ys, e, H')"
    by (simp add: faiter_def new_dict_def)
  have lt: "length H < length (H @ [Map.empty])" by simp
  have dm: "dom ((H @ [Map.empty]) ! length H) \<subseteq> {''name'', ''description'', ''sequence''}"
    by simp
  have c1: "fa_lines h = [] \<longrightarrow> ys = [] \<and> e = StopIteration"
  proof
    assume e: "fa_lines h = []"
    have "strip l = []" using e a [symmetric] by (auto simp: ahead_def split: if_splits)
    with run show "ys = [] \<and> e = StopIteration"
      by (simp add: fa_loop.simps [of _ "[]"])
  qed
  have c2: "fa_lines h \<noteq> [] \<and> \<not> startswith (hd (fa_lines h)) CHR ''>'' \<longrightarrow>
              ys = [] \<and> e = Raised (IOError Bad_FASTA_format)"
  proof
    assume n: "fa_lines h \<noteq> [] \<and> \<not> startswith (hd (fa_lines h)) CHR ''>''"
    have s: "strip l \<noteq> []" "hd (fa_lines h) = strip l"
      using n a [symmetric] by (auto simp: ahead_def split: if_splits)
    with n run show "ys = [] \<and> e = Raised (IOError Bad_FASTA_format)"
      by (simp add: fa_loop.simps [of _ "strip l"])
  qed
  have c3: "fa_lines h \<noteq> [] \<and> startswith (hd (fa_lines h)) CHR ''>'' \<longrightarrow>
              e = StopIteration \<and> map snd ys = fa_records (fa_lines h)
              \<and> length ys = length (filter (\<lambda>l. startswith l CHR ''>'') (fa_lines h))"
  proof
    assume n: "fa_lines h \<noteq> [] \<and> startswith (hd (fa_lines h)) CHR ''>''"
    then have ok: "ahead (strip l) h0 = [] \<or> startswith (hd (ahead (strip l) h0)) CHR ''>''"
      by (simp add: a)
    from fa_loop_records [OF lt dm ok run] a
    have r: "e = StopIteration" "map snd ys = fa_records (fa_lines h)" by simp_all
    from r(2) have "length ys = length (fa_records (fa_lines h))"
      by (metis length_map)
    with fa_records_count [of "fa_lines h"] n r
    show "e = StopIteration \<and> map snd ys = fa_records (fa_lines h)
          \<and> length ys = length (filter (\<lambda>l. startswith l CHR ''>'') (fa_lines h))"
      by simp
  qed
  from c1 c2 c3 show ?thesis by blast
qed

text \<open>
  Instances: the empty file, a file whose first line is not a header, and the file of
  scenario A with its two records.
\<close>

theorem faiter_records_witness:
  "fa_lines [] = [] \<and> faiter [] [] = ([], StopIteration, [Map.empty])
   \<and> fa_lines [''ACGT''] \<noteq> [] \<and> \<not> startswith (hd (fa_lines [''ACGT''])) CHR ''>''
   \<and> fst (faiter [''ACGT''] []) = []
   \<and> fst (snd (faiter [''ACGT''] [])) = Raised (IOError Bad_FASTA_format)
   \<and> fa_lines [''>A'', ''ACGT'', ''>B sample'', ''TTTT''] \<noteq> []
   \<and> startswith (hd (fa_lines [''>A'', ''ACGT'', ''>B sample'', ''TTTT''])) CHR ''>''
   \<and> fst (snd (faiter [''>A'', ''ACGT'', ''>B sample'', ''TTTT''] [])) = StopIteration
   \<and> length (fst (faiter [''>A'', ''ACGT'', ''>B sample'', ''TTTT''] [])) = 2
   \<and> map (\<lambda>y. (snd y ''name'', snd y ''description'', snd y ''sequence''))
         (fst (faiter [''>A'', ''ACGT'', ''>B sample'', ''TTTT''] []))
       = [(Some ''A'', Some [], Some ''ACGT''), (Some ''B'', Some ''sample'', Some ''TTTT'')]"
proof -
  have l0: "fa_lines [] = []" by (simp add: fa_lines_def)
  obtain ys0 e0 H0 where r0: "faiter [] [] = (ys0, e0, H0)" by (cases "faiter [] []")
  from faiter_records [OF r0] l0 have v0: "ys0 = []" "e0 = StopIteration" by simp_all
  have h0: "H0 = [Map.empty]"
    using r0 by (simp add: faiter_def new_dict_def fa_loop.simps)
  have l1: "fa_lines [''ACGT''] = [''ACGT'']"
    by (simp add: fa_lines_def strip_def isspace_def)
  then have n1: "fa_lines [''ACGT''] \<noteq> []"
    and b1: "\<not> startswith (hd (fa_lines [''ACGT''])) CHR ''>''"
    by (simp_all add: startswith_def)
  obtain ys1 e1 H1 where r1: "faiter [''ACGT''] [] = (ys1, e1, H1)" by (cases "faiter [''ACGT''] []")
  from faiter_records [OF r1] n1 b1 have v1: "ys1 = []" "e1 = Raised (IOError Bad_FASTA_format)"
    by simp_all
  have l2: "fa_lines [''>A'', ''ACGT'', ''>B sample'', ''TTTT'']
            = [''>A'', ''ACGT'', ''>B sample'', ''TTTT'']"
    by (simp add: fa_lines_def strip_def isspace_def)
  then have n2: "fa_lines [''>A'', ''ACGT'', ''>B sample'', ''TTTT''] \<noteq> []"
    and b2: "startswith (hd (fa_lines [''>A'', ''ACGT'', ''>B sample'', ''TTTT''])) CHR ''>''"
    by (simp_all add: startswith_def)
  obtain ys2 e2 H2 where r2: "faiter [''>A'', ''ACGT'', ''>B sample'', ''TTTT''] [] = (ys2, e2, H2)"
    by (cases "faiter [''>A'', ''ACGT'', ''>B sample'', ''TTTT''] []")
  from faiter_records [OF r2] n2 b2 have v2: "e2 = StopIteration"
    "map snd ys2 = fa_records (fa_lines [''>A'', ''ACGT'', ''>B sample'', ''TTTT''])"
    "length ys2 = length (filter (\<lambda>l. startswith l CHR ''>'')
                           (fa_lines [''>A'', ''ACGT'', ''>B sample'', ''TTTT'']))"
    by simp_all
  from v2(3) have c2: "length ys2 = 2" by (simp add: l2 startswith_def)
  have "map (\<lambda>r. (r ''name'', r ''description'', r ''sequence''))
          (fa_records [''>A'', ''ACGT'', ''>B sample'', ''TTTT''])
        = [(Some ''A'', Some [], Some ''ACGT''), (Some ''B'', Some ''sample'', Some ''TTTT'')]"
    by (simp add: fa_record_def startswith_def split1_def strip_def isspace_def)
  with v2(2) have "map (\<lambda>r. (r ''name'', r ''description'', r ''sequence'')) (map snd ys2)
        = [(Some ''A'', Some [], Some ''ACGT''), (Some ''B'', Some ''sample'', Some ''TTTT'')]"
    by (simp only: l2)
  then have m2: "map (\<lambda>y. (snd y ''name'', snd y ''description'', snd y ''sequence'')) ys2
        = [(Some ''A'', Some [], Some ''ACGT''), (Some ''B'', Some ''sample'', Some ''TTTT'')]"
    by (simp add: comp_def)
  from l0 r0 v0 h0 n1 b1 r1 v1 n2 b2 r2 v2(1) c2 m2 show ?thesis by simp
qed

section \<open>What the FASTQ parser reads\<close>

text \<open>
  The FASTQ format in the words of the spec, on the lines of a stream (each stripped): a
  record begins with a header line; the rest of the header splits on the first space into
  name and annotations (empty if absent); the lines up to the one that begins with \<open>+\<close>
  form the sequence, that line is dropped, and the lines after it form the accuracy, up to
  a line that begins with \<open>@\<close>, a blank line or the end; a record whose sequence and
  accuracy differ in length ends the parse with an error. A blank line where a header is
  due ends the stream. \<open>None\<close> is a record without a line that begins with \<open>+\<close>, about
  which nothing is said here.
\<close>

definition fq_record :: "string \<Rightarrow> string \<Rightarrow> string \<Rightarrow> pydict" where
  "fq_record header sq ac =
     (case (case split1 (tl header) of Some (n, a) \<Rightarrow> (n, a) | None \<Rightarrow> (tl header, [])) of
        (n, a) \<Rightarrow> [''name'' \<mapsto> n, ''annotations'' \<mapsto> a, ''sequence'' \<mapsto> sq,
                   ''accuracy'' \<mapsto> ac])"

lemma dropWhile_Cons_shorter: "dropWhile P xs = y # ys \<Longrightarrow> length ys < length xs"
  using length_dropWhile_le [of P xs] by simp

function fq_records :: "string list \<Rightarrow> (pydict list \<times> ending) option" where
  "fq_records [] = Some ([], StopIteration)"
| "fq_records (header # ls) =
     (if header = [] then Some ([], StopIteration)
      else if \<not> startswith header CHR ''@'' then Some ([], Raised (IOError Bad_FASTQ_format))
      else
        (case dropWhile (\<lambda>l. \<not> startswith l CHR ''+'') ls of
           [] \<Rightarrow> None
         | pl # ls' \<Rightarrow>
             if length (concat (takeWhile (\<lambda>l. \<not> startswith l CHR ''+'') ls))
                  \<noteq> length (concat (takeWhile (\<lambda>l. \<not> startswith l CHR ''@'' \<and> l \<noteq> []) ls'))
             then Some ([], Raised (IOError Unequal_lengths))
             else
               (case fq_records (dropWhile (\<lambda>l. \<not> startswith l CHR ''@'' \<and> l \<noteq> []) ls') of
                  None \<Rightarrow> None
                | Some (rs, e) \<Rightarrow>
                    Some (fq_record header
                            (concat (takeWhile (\<lambda>l. \<not> startswith l CHR ''+'') ls))
                            (concat (takeWhile (\<lambda>l. \<not> startswith l CHR ''@'' \<and> l \<noteq> []) ls'))
                          # rs, e))))"
  by pat_completeness auto
termination
proof (relation "measure length")
  fix header :: string and ls pl ls'
  assume "dropWhile (\<lambda>l. \<not> startswith l CHR ''+'') ls = pl # ls'"
  then have "length ls' < length ls" by (rule dropWhile_Cons_shorter)
  moreover have "length (dropWhile (\<lambda>l. \<not> startswith l CHR ''@'' \<and> l \<noteq> []) ls') \<le> length ls'"
    by (rule length_dropWhile_le)
  ultimately show "(dropWhile (\<lambda>l. \<not> startswith l CHR ''@'' \<and> l \<noteq> []) ls', header # ls)
                   \<in> measure length"
    by simp
qed simp

declare fq_records.simps(2) [simp del]

lemma fq_records_blank [simp]: "fq_records ([] # ls) = Some ([], StopIteration)"
  by (simp add: fq_records.simps(2))

text \<open>The sequence loop on a stream that has a line beginning with \<open>+\<close>.\<close>

lemma fq_sequence_stream:
  "dropWhile (\<lambda>l. \<not> startswith l CHR ''+'') (line # map strip h) \<noteq> [] \<Longrightarrow>
   \<exists>h2. fq_sequence line h acc
          = Some (acc @ takeWhile (\<lambda>l. \<not> startswith l CHR ''+'') (line # map strip h), h2)
        \<and> map strip h2 = tl (dropWhile (\<lambda>l. \<not> startswith l CHR ''+'') (line # map strip h))"
proof (induction h arbitrary: line acc)
  case Nil
  then show ?case by (auto simp: fq_sequence_simps split: if_splits)
next
  case (Cons x h)
  show ?case
  proof (cases "startswith line CHR ''+''")
    case True
    then show ?thesis by (simp add: fq_sequence_simps)
  next
    case False
    with Cons.prems have "dropWhile (\<lambda>l. \<not> startswith l CHR ''+'') (strip x # map strip h) \<noteq> []"
      by simp
    from Cons.IH [OF this, of "acc @ [line]"] False show ?thesis
      by (simp add: fq_sequence_simps)
  qed
qed

text \<open>The accuracy loop: what it collects, and the state it leaves.\<close>

lemma fq_accuracy_stream:
  "fq_accuracy line h acc = (ac, line', h') \<Longrightarrow>
   ac = acc @ takeWhile (\<lambda>l. \<not> startswith l CHR ''@'' \<and> l \<noteq> []) (line # map strip h)
   \<and> (dropWhile (\<lambda>l. \<not> startswith l CHR ''@'' \<and> l \<noteq> []) (line # map strip h) = [] \<and> line' = []
      \<or> dropWhile (\<lambda>l. \<not> startswith l CHR ''@'' \<and> l \<noteq> []) (line # map strip h)
          = line' # map strip h')"
proof (induction line h acc rule: fq_accuracy.induct)
  case (1 line h acc)
  show ?case
  proof (cases "\<not> startswith line CHR ''@'' \<and> \<not> line = []")
    case True
    obtain l h1 where rl: "readline h = (l, h1)" by (cases "readline h")
    from True rl "1.prems" have r: "fq_accuracy (strip l) h1 (acc @ [line]) = (ac, line', h')"
      by (simp add: fq_accuracy.simps [of line h])
    note ih = "1.IH" [OF True rl [symmetric] r]
    show ?thesis
    proof (cases h)
      case Nil
      with rl have "l = []" "h1 = []" by simp_all
      with r have "ac = acc @ [line]" "line' = []"
        by (simp_all add: fq_accuracy.simps [of "[]" "[]"] startswith_def)
      with True Nil show ?thesis by simp
    next
      case (Cons x h0)
      with rl have "l = x" "h1 = h0" by simp_all
      with ih True Cons show ?thesis by simp
    qed
  next
    case False
    with "1.prems" have "ac = acc" "line' = line" "h' = h"
      by (auto simp: fq_accuracy.simps [of line h])
    with False show ?thesis by auto
  qed
qed

text \<open>
  One pass of the loop of \<open>fqiter\<close> on a stream whose record has its \<open>+\<close> line: it raises
  when the lengths differ, and else leaves in the dict the record of the header and its
  lines, in a state that has the rest of the stream before it.
\<close>

lemma fq_body_stream:
  assumes "data < length H"
    and "dom (H ! data) \<subseteq> {''name'', ''annotations'', ''sequence'', ''accuracy''}"
    and "dropWhile (\<lambda>l. \<not> startswith l CHR ''+'') (map strip h) = pl # ls'"
  shows "length (concat (takeWhile (\<lambda>l. \<not> startswith l CHR ''+'') (map strip h)))
           \<noteq> length (concat (takeWhile (\<lambda>l. \<not> startswith l CHR ''@'' \<and> l \<noteq> []) ls')) \<Longrightarrow>
         \<exists>H3. fq_body data line h H = Ends (Raised (IOError Unequal_lengths)) H3"
    and "length (concat (takeWhile (\<lambda>l. \<not> startswith l CHR ''+'') (map strip h)))
           = length (concat (takeWhile (\<lambda>l. \<not> startswith l CHR ''@'' \<and> l \<noteq> []) ls')) \<Longrightarrow>
         \<exists>line' h4 H3. fq_body data line h H = Yields line' h4 H3
            \<and> H3 ! data = fq_record line
                  (concat (takeWhile (\<lambda>l. \<not> startswith l CHR ''+'') (map strip h)))
                  (concat (takeWhile (\<lambda>l. \<not> startswith l CHR ''@'' \<and> l \<noteq> []) ls'))
            \<and> dom (H3 ! data) \<subseteq> {''name'', ''annotations'', ''sequence'', ''accuracy''}
            \<and> length H3 = length H
            \<and> fq_records (line' # map strip h4)
                = fq_records (dropWhile (\<lambda>l. \<not> startswith l CHR ''@'' \<and> l \<noteq> []) ls')"
proof -
  let ?P = "\<lambda>l. \<not> startswith l CHR ''+''" and ?Q = "\<lambda>l. \<not> startswith l CHR ''@'' \<and> l \<noteq> []"
  obtain n a where na: "(case split1 (tl line) of Some (n, a) \<Rightarrow> (n, a) | None \<Rightarrow> (tl line, [])) = (n, a)"
    by (cases "case split1 (tl line) of Some (n, a) \<Rightarrow> (n, a) | None \<Rightarrow> (tl line, [])")
  from assms(3) obtain x h1 where h: "h = x # h1" by (cases h) auto
  then have rl: "readline h = (x, h1)" by simp
  have st: "strip x # map strip h1 = map strip h" using h by simp
  from assms(3) have "dropWhile ?P (strip x # map strip h1) \<noteq> []" by (simp add: st)
  from fq_sequence_stream [OF this, of "[]"] obtain h2 where
    sq: "fq_sequence (strip x) h1 [] = Some (takeWhile ?P (map strip h), h2)"
    and h2: "map strip h2 = ls'"
    using assms(3) by (auto simp: st)
  obtain l' h3 where rl': "readline h2 = (l', h3)" by (cases "readline h2")
  obtain ac line' h4 where acc: "fq_accuracy (strip l') h3 [] = (ac, line', h4)"
    by (cases "fq_accuracy (strip l') h3 []")
  note fa = fq_accuracy_stream [OF acc]
  have ac: "ac = takeWhile ?Q ls'"
  proof (cases h2)
    case Nil
    with rl' h2 fa show ?thesis by auto
  next
    case (Cons y h2')
    with rl' h2 fa show ?thesis by auto
  qed
  have nxt: "fq_records (line' # map strip h4) = fq_records (dropWhile ?Q ls')"
  proof (cases h2)
    case Nil
    with rl' h2 have "l' = []" "h3 = []" "ls' = []" by auto
    with fa show ?thesis by auto
  next
    case (Cons y h2')
    with rl' h2 have s: "strip l' # map strip h3 = ls'" by auto
    from fa have "dropWhile ?Q ls' = [] \<and> line' = [] \<or> dropWhile ?Q ls' = line' # map strip h4"
      by (simp only: s)
    then show ?thesis
    proof
      assume "dropWhile ?Q ls' = [] \<and> line' = []"
      then have d: "dropWhile ?Q ls' = []" and l: "line' = []" by blast+
      show ?thesis by (simp only: d l fq_records.simps(1) fq_records_blank)
    next
      assume "dropWhile ?Q ls' = line' # map strip h4"
      then show ?thesis by simp
    qed
  qed
  let ?H3 = "dict_setitem (dict_setitem (dict_setitem (dict_setitem H data ''name'' n)
               data ''annotations'' a) data ''sequence'' (concat (takeWhile ?P (map strip h))))
               data ''accuracy'' (concat ac)"
  have body: "fq_body data line h H =
                (if length (concat (takeWhile ?P (map strip h))) \<noteq> length (concat ac)
                 then Ends (Raised (IOError Unequal_lengths)) ?H3
                 else Yields line' h4 ?H3)"
    by (simp add: fq_body_def na rl sq rl' acc Let_def)
  have c: "?H3 ! data = (H ! data)(''name'' \<mapsto> n, ''annotations'' \<mapsto> a,
              ''sequence'' \<mapsto> concat (takeWhile ?P (map strip h)), ''accuracy'' \<mapsto> concat ac)"
    using assms(1) by (simp add: dict_setitem_nth)
  have "(H ! data)(''name'' \<mapsto> n, ''annotations'' \<mapsto> a,
              ''sequence'' \<mapsto> concat (takeWhile ?P (map strip h)), ''accuracy'' \<mapsto> concat ac)
        = [''name'' \<mapsto> n, ''annotations'' \<mapsto> a,
              ''sequence'' \<mapsto> concat (takeWhile ?P (map strip h)), ''accuracy'' \<mapsto> concat ac]"
  proof (rule ext)
    fix k
    show "((H ! data)(''name'' \<mapsto> n, ''annotations'' \<mapsto> a,
              ''sequence'' \<mapsto> concat (takeWhile ?P (map strip h)), ''accuracy'' \<mapsto> concat ac)) k
          = [''name'' \<mapsto> n, ''annotations'' \<mapsto> a,
              ''sequence'' \<mapsto> concat (takeWhile ?P (map strip h)), ''accuracy'' \<mapsto> concat ac] k"
      using assms(2) by (cases "k \<in> dom (H ! data)") auto
  qed
  with c na have rec: "?H3 ! data = fq_record line (concat (takeWhile ?P (map strip h))) (concat ac)"
    by (simp add: fq_record_def)
  have dm: "dom (?H3 ! data) \<subseteq> {''name'', ''annotations'', ''sequence'', ''accuracy''}"
    using c assms(2) by auto
  show "length (concat (takeWhile ?P (map strip h))) \<noteq> length (concat (takeWhile ?Q ls')) \<Longrightarrow>
        \<exists>H3. fq_body data line h H = Ends (Raised (IOError Unequal_lengths)) H3"
    using body ac by auto
  show "length (concat (takeWhile ?P (map strip h))) = length (concat (takeWhile ?Q ls')) \<Longrightarrow>
         \<exists>line' h4 H3. fq_body data line h H = Yields line' h4 H3
            \<and> H3 ! data = fq_record line (concat (takeWhile ?P (map strip h)))
                  (concat (takeWhile ?Q ls'))
            \<and> dom (H3 ! data) \<subseteq> {''name'', ''annotations'', ''sequence'', ''accuracy''}
            \<and> length H3 = length H
            \<and> fq_records (line' # map strip h4) = fq_records (dropWhile ?Q ls')"
    using body ac rec dm nxt by (intro exI [of _ line'] exI [of _ h4] exI [of _ ?H3]) simp
qed

lemma fq_loop_records:
  "data < length H \<Longrightarrow>
   dom (H ! data) \<subseteq> {''name'', ''annotations'', ''sequence'', ''accuracy''} \<Longrightarrow>
   fq_records (line # map strip h) = Some (rs, e) \<Longrightarrow>
   \<exists>ys H'. fq_loop data line h H = (ys, e, H') \<and> map snd ys = rs"
proof (induction data line h H arbitrary: rs e rule: fq_loop.induct)
  case (1 data line h H)
  let ?P = "\<lambda>l. \<not> startswith l CHR ''+''" and ?Q = "\<lambda>l. \<not> startswith l CHR ''@'' \<and> l \<noteq> []"
  show ?case
  proof (cases "line = []")
    case True
    with "1.prems"(3) show ?thesis by (simp add: fq_loop.simps [of data "[]" h H])
  next
    case ne: False
    show ?thesis
    proof (cases "startswith line CHR ''@''")
      case False
      with ne "1.prems"(3) show ?thesis
        by (simp add: fq_loop.simps [of data line h H] fq_records.simps(2))
    next
      case sw: True
      then have nn: "\<not> \<not> startswith line CHR ''@''" by simp
      from ne sw "1.prems"(3) obtain pl ls' where dw: "dropWhile ?P (map strip h) = pl # ls'"
        by (cases "dropWhile ?P (map strip h)") (auto simp: fq_records.simps(2))
      note body = fq_body_stream [OF "1.prems"(1,2) dw, of line]
      show ?thesis
      proof (cases "length (concat (takeWhile ?P (map strip h)))
                      = length (concat (takeWhile ?Q ls'))")
        case False
        with ne sw dw "1.prems"(3) have r: "rs = []" "e = Raised (IOError Unequal_lengths)"
          by (auto simp: fq_records.simps(2))
        from body(1) [OF False] obtain H3 where
          "fq_body data line h H = Ends (Raised (IOError Unequal_lengths)) H3" by blast
        with ne sw r show ?thesis by (simp add: fq_loop.simps [of data line h H])
      next
        case True
        with ne sw dw "1.prems"(3) obtain rs0 where
          rest: "fq_records (dropWhile ?Q ls') = Some (rs0, e)"
          and rs: "rs = fq_record line (concat (takeWhile ?P (map strip h)))
                          (concat (takeWhile ?Q ls')) # rs0"
          by (auto simp: fq_records.simps(2) split: option.splits)
        from body(2) [OF True] obtain line' h4 H3 where
          y: "fq_body data line h H = Yields line' h4 H3"
          and rec: "H3 ! data = fq_record line (concat (takeWhile ?P (map strip h)))
                                  (concat (takeWhile ?Q ls'))"
          and dm: "dom (H3 ! data) \<subseteq> {''name'', ''annotations'', ''sequence'', ''accuracy''}"
          and len: "length H3 = length H"
          and nxt: "fq_records (line' # map strip h4) = fq_records (dropWhile ?Q ls')"
          by blast
        from len "1.prems"(1) have lt: "data < length H3" by simp
        from rest nxt have "fq_records (line' # map strip h4) = Some (rs0, e)" by simp
        from "1.IH" [OF ne nn y lt dm this] obtain ys0 H' where
          "fq_loop data line' h4 H3 = (ys0, e, H')" "map snd ys0 = rs0" by blast
        with ne sw y rec rs show ?thesis by (simp add: fq_loop.simps [of data line h H])
      qed
    qed
  qed
qed

lemma fq_records_ending: "fq_records ls = Some (rs, e) \<Longrightarrow> e \<noteq> Diverges"
proof (induction ls arbitrary: rs rule: fq_records.induct)
  case 1
  then show ?case by auto
next
  case (2 header ls)
  let ?P = "\<lambda>l. \<not> startswith l CHR ''+''" and ?Q = "\<lambda>l. \<not> startswith l CHR ''@'' \<and> l \<noteq> []"
  show ?case
  proof (cases "header \<noteq> [] \<and> startswith header CHR ''@''")
    case False
    with "2.prems" show ?thesis by (auto simp: fq_records.simps(2) split: if_splits)
  next
    case True
    then have ne: "header \<noteq> []" and nn: "\<not> \<not> startswith header CHR ''@''" by simp_all
    from True "2.prems" obtain pl ls' where dw: "dropWhile ?P ls = pl # ls'"
      by (cases "dropWhile ?P ls") (auto simp: fq_records.simps(2))
    show ?thesis
    proof (cases "length (concat (takeWhile ?P ls)) = length (concat (takeWhile ?Q ls'))")
      case False
      with True dw "2.prems" show ?thesis by (auto simp: fq_records.simps(2))
    next
      case eq: True
      then have nq: "\<not> length (concat (takeWhile ?P ls)) \<noteq> length (concat (takeWhile ?Q ls'))"
        by simp
      from True dw eq "2.prems" obtain rs0 where
        "fq_records (dropWhile ?Q ls') = Some (rs0, e)"
        by (auto simp: fq_records.simps(2) split: option.splits)
      from "2.IH" [OF ne nn dw nq this] show ?thesis .
    qed
  qed
qed

text \<open>
  C2 says that \<open>fqiter\<close> yields one record for each header of the stream and reads the
  accuracy up to a line that begins with \<open>@\<close> or the end of the stream. A blank line is
  taken for the end of the stream: of the two records of the first stream below only \<open>a\<close>
  is yielded; and in the second the accuracy stops at the blank line, so the record is
  refused for its length although its accuracy lines add up to the length of the
  sequence.
\<close>

theorem fqiter_blank_line_counterexample:
  "(case fqiter [''@a'', ''AC'', ''+'', ''II'', [], ''@b'', ''GT'', ''+'', ''II''] [] of
      (ys, e, H) \<Rightarrow> e = StopIteration \<and> map (\<lambda>y. snd y ''name'') ys = [Some ''a''])
   \<and> (case fqiter [''@a'', ''ACGT'', ''+'', ''II'', [], ''II''] [] of
        (ys, e, H) \<Rightarrow> ys = [] \<and> e = Raised (IOError Unequal_lengths))
   \<and> length (concat [''II'', [], ''II'']) = length ''ACGT''"
  by (simp add: fqiter_def new_dict_def fq_loop.simps fq_body_def fq_sequence_simps
      fq_accuracy.simps startswith_def strip_def isspace_def split1_def dict_setitem_def Let_def)

text \<open>
  C2 as the code has it, for a stream in which every record read has its line beginning
  with \<open>+\<close>: \<open>fqiter\<close> ends, and it yields the records of the format above and ends the
  way the format says; there, a blank line where a header is due, or after accuracy lines,
  is the end of the stream, the first line must begin with \<open>@\<close>, and a record whose
  sequence and accuracy differ in length raises the error, is not yielded and ends the
  run.
\<close>

theorem fqiter_records:
  assumes "fq_records (map strip h) = Some (rs, e)"
  shows "\<exists>ys H'. fqiter h H = (ys, e, H') \<and> map snd ys = rs \<and> e \<noteq> Diverges"
proof -
  obtain l h0 where rl: "readline h = (l, h0)" by (cases "readline h")
  have "fq_records (strip l # map strip h0) = Some (rs, e)"
  proof (cases h)
    case Nil
    with rl assms show ?thesis by simp
  next
    case (Cons x h1)
    with rl assms show ?thesis by simp
  qed
  from fq_loop_records [OF _ _ this, of "length H" "H @ [Map.empty]"]
  obtain ys H' where "fq_loop (length H) (strip l) h0 (H @ [Map.empty]) = (ys, e, H')"
    "map snd ys = rs"
    by auto
  with rl fq_records_ending [OF assms] show ?thesis
    by (simp add: fqiter_def new_dict_def)
qed

text \<open>
  Instances: the file of scenario B, whose one record is yielded, and the file of
  scenario C, refused for the lengths 5 and 4.
\<close>

theorem fqiter_records_witness:
  "(\<exists>rs. fq_records (map strip [''@R1'', ''ACGTACGT'', ''+'', ''IIIIIIII''])
           = Some (rs, StopIteration))
   \<and> fst (snd (fqiter [''@R1'', ''ACGTACGT'', ''+'', ''IIIIIIII''] [])) = StopIteration
   \<and> map (\<lambda>y. (snd y ''name'', snd y ''annotations'', snd y ''sequence'', snd y ''accuracy''))
         (fst (fqiter [''@R1'', ''ACGTACGT'', ''+'', ''IIIIIIII''] []))
       = [(Some ''R1'', Some [], Some ''ACGTACGT'', Some ''IIIIIIII'')]
   \<and> fq_records (map strip [''@R1'', ''ACGTA'', ''+'', ''IIII''])
       = Some ([], Raised (IOError Unequal_lengths))
   \<and> fst (fqiter [''@R1'', ''ACGTA'', ''+'', ''IIII''] []) = []
   \<and> fst (snd (fqiter [''@R1'', ''ACGTA'', ''+'', ''IIII''] [])) = Raised (IOError Unequal_lengths)"
proof -
  have sB: "map strip [''@R1'', ''ACGTACGT'', ''+'', ''IIIIIIII'']
            = [''@R1'', ''ACGTACGT'', ''+'', ''IIIIIIII'']"
    and sC: "map strip [''@R1'', ''ACGTA'', ''+'', ''IIII''] = [''@R1'', ''ACGTA'', ''+'', ''IIII'']"
    by (simp_all add: strip_def isspace_def)
  have "\<exists>rs. fq_records [''@R1'', ''ACGTACGT'', ''+'', ''IIIIIIII''] = Some (rs, StopIteration)
          \<and> map (\<lambda>r. (r ''name'', r ''annotations'', r ''sequence'', r ''accuracy'')) rs
              = [(Some ''R1'', Some [], Some ''ACGTACGT'', Some ''IIIIIIII'')]"
    by (simp add: fq_records.simps(2) fq_record_def startswith_def split1_def)
  then have "\<exists>rs. fq_records (map strip [''@R1'', ''ACGTACGT'', ''+'', ''IIIIIIII''])
                = Some (rs, StopIteration)
          \<and> map (\<lambda>r. (r ''name'', r ''annotations'', r ''sequence'', r ''accuracy'')) rs
              = [(Some ''R1'', Some [], Some ''ACGTACGT'', Some ''IIIIIIII'')]"
    by (simp only: sB)
  then obtain rs where
    fB: "fq_records (map strip [''@R1'', ''ACGTACGT'', ''+'', ''IIIIIIII'']) = Some (rs, StopIteration)"
    and mB: "map (\<lambda>r. (r ''name'', r ''annotations'', r ''sequence'', r ''accuracy'')) rs
              = [(Some ''R1'', Some [], Some ''ACGTACGT'', Some ''IIIIIIII'')]"
    by (elim exE conjE)
  from fqiter_records [OF fB, of "[]"] obtain ys H' where
    rB: "fqiter [''@R1'', ''ACGTACGT'', ''+'', ''IIIIIIII''] [] = (ys, StopIteration, H')"
    and yB: "map snd ys = rs" and "StopIteration \<noteq> Diverges"
    by (elim exE conjE)
  have zB: "map (\<lambda>y. (snd y ''name'', snd y ''annotations'', snd y ''sequence'', snd y ''accuracy'')) ys
              = [(Some ''R1'', Some [], Some ''ACGTACGT'', Some ''IIIIIIII'')]"
    using mB unfolding yB [symmetric] map_map comp_def .
  have "fq_records [''@R1'', ''ACGTA'', ''+'', ''IIII''] = Some ([], Raised (IOError Unequal_lengths))"
    by (simp add: fq_records.simps(2) startswith_def)
  then have fC: "fq_records (map strip [''@R1'', ''ACGTA'', ''+'', ''IIII''])
                 = Some ([], Raised (IOError Unequal_lengths))"
    by (simp only: sC)
  from fqiter_records [OF fC, of "[]"] obtain ys' H'' where
    rC: "fqiter [''@R1'', ''ACGTA'', ''+'', ''IIII''] [] = (ys', Raised (IOError Unequal_lengths), H'')"
    and yC: "map snd ys' = []" and "Raised (IOError Unequal_lengths) \<noteq> Diverges"
    by (elim exE conjE)
  from yC have yC': "ys' = []" by simp
  have 1: "\<exists>rs. fq_records (map strip [''@R1'', ''ACGTACGT'', ''+'', ''IIIIIIII''])
                  = Some (rs, StopIteration)"
    using fB by (rule exI)
  have 2: "fst (snd (fqiter [''@R1'', ''ACGTACGT'', ''+'', ''IIIIIIII''] [])) = StopIteration"
    by (simp add: rB)
  have 3: "map (\<lambda>y. (snd y ''name'', snd y ''annotations'', snd y ''sequence'', snd y ''accuracy''))
             (fst (fqiter [''@R1'', ''ACGTACGT'', ''+'', ''IIIIIIII''] []))
           = [(Some ''R1'', Some [], Some ''ACGTACGT'', Some ''IIIIIIII'')]"
    using zB by (simp only: rB fst_conv)
  have 5: "fst (fqiter [''@R1'', ''ACGTA'', ''+'', ''IIII''] []) = []"
    by (simp add: rC yC')
  have 6: "fst (snd (fqiter [''@R1'', ''ACGTA'', ''+'', ''IIII''] [])) = Raised (IOError Unequal_lengths)"
    by (simp add: rC)
  from 1 2 3 fC 5 6 show ?thesis by (intro conjI)
qed

end
